theory Spec2Isabelle
  imports Main
begin

section \<open>Relational schema\<close>

text \<open>
  The tables of the two migrations, one record per table and one list of rows per table.
  A UUID is an opaque identifier and is modelled as a natural number; a timestamp is a
  number of milliseconds since the epoch, the resolution of the client's \<open>Date\<close>.
  A column declared \<open>NOT NULL\<close> has its plain type, a nullable column is an \<open>option\<close>.
  Columns that no function below reads (descriptions, avatar URLs, \<open>updated_at\<close>, ...) are
  left out of the records.
\<close>

type_synonym uuid = nat
type_synonym timestamp = int

datatype app_role = Owner | Admin | Manager | Contributor | Viewer

record user_role =
  ur_id :: uuid
  ur_user_id :: uuid
  ur_org_id :: uuid
  ur_role :: app_role

record invite =
  inv_id :: uuid
  inv_org_id :: uuid
  inv_email :: string
  inv_role :: app_role
  inv_token :: string
  inv_expires_at :: timestamp
  inv_created_by :: uuid
  inv_accepted_at :: "timestamp option"
  inv_accepted_by :: "uuid option"

record deployment =
  dep_id :: uuid
  dep_issue_id :: "uuid option"
  dep_project_id :: uuid

record profile =
  pr_id :: uuid
  pr_org_id :: "uuid option"
  pr_email :: string
  pr_role :: app_role

record project =
  p_id :: uuid
  p_org_id :: uuid
  p_name :: string
  p_key :: string

record sprint =
  sp_id :: uuid
  sp_project_id :: uuid
  sp_created_by :: uuid

record issue =
  i_id :: uuid
  i_project_id :: uuid
  i_issue_key :: string
  i_reporter_id :: uuid

record board =
  b_id :: uuid
  b_project_id :: uuid

record database =
  user_roles :: "user_role list"
  invites :: "invite list"
  deployments :: "deployment list"
  profiles :: "profile list"
  projects :: "project list"
  sprints :: "sprint list"
  issues :: "issue list"
  boards :: "board list"

section \<open>The security-definer helpers\<close>

text \<open>
  \<open>has_role\<close> is \<open>SELECT EXISTS (SELECT 1 FROM user_roles WHERE user_id = _user_id AND
  org_id = _org_id AND role = _role)\<close>.
\<close>

definition has_role :: "database \<Rightarrow> uuid \<Rightarrow> uuid \<Rightarrow> app_role \<Rightarrow> bool" where
  "has_role db uid oid r =
     (filter (\<lambda>row. ur_user_id row = uid \<and> ur_org_id row = oid \<and> ur_role row = r)
        (user_roles db) \<noteq> [])"

text \<open>
  \<open>get_user_role\<close> is \<open>SELECT role FROM user_roles WHERE user_id = _user_id AND
  org_id = _org_id LIMIT 1\<close>; a query without a row makes the function return NULL,
  here \<open>None\<close>.
\<close>

definition get_user_role :: "database \<Rightarrow> uuid \<Rightarrow> uuid \<Rightarrow> app_role option" where
  "get_user_role db uid oid =
     (case filter (\<lambda>row. ur_user_id row = uid \<and> ur_org_id row = oid) (user_roles db) of
        [] \<Rightarrow> None
      | row # _ \<Rightarrow> Some (ur_role row))"

text \<open>The constraint \<open>UNIQUE(user_id, org_id)\<close> of \<open>user_roles\<close>, as a predicate on a state.\<close>

definition user_roles_unique :: "database \<Rightarrow> bool" where
  "user_roles_unique db = distinct (map (\<lambda>row. (ur_user_id row, ur_org_id row)) (user_roles db))"

section \<open>The organization slug generator (CreateOrgDialog)\<close>

text \<open>
  A string is a list of \<^typ>\<open>char\<close>, read as code points below 256. On these,
  JavaScript's \<open>toLowerCase\<close> adds 32 to the code points of \<open>A\<close> to \<open>Z\<close> and of the
  Latin-1 capitals 192 to 222 (the multiplication sign 215 apart) and leaves every other
  code point alone.
\<close>

definition toLowerCase_char :: "char \<Rightarrow> char" where
  "toLowerCase_char c =
     (let n = (of_char c :: nat)
      in if (65 \<le> n \<and> n \<le> 90) \<or> (192 \<le> n \<and> n \<le> 222 \<and> n \<noteq> 215)
         then char_of (n + 32) else c)"

definition toLowerCase :: "string \<Rightarrow> string" where
  "toLowerCase s = map toLowerCase_char s"

text \<open>The character class \<open>[a-z0-9]\<close>.\<close>

definition lower_alnum :: "char \<Rightarrow> bool" where
  "lower_alnum c =
     (let n = (of_char c :: nat) in (97 \<le> n \<and> n \<le> 122) \<or> (48 \<le> n \<and> n \<le> 57))"

text \<open>
  \<open>.replace(/[^a-z0-9]+/g, '-')\<close>: every maximal run of characters outside \<open>[a-z0-9]\<close>
  becomes one hyphen.
\<close>

function replace_non_alnum_runs :: "string \<Rightarrow> string" where
  "replace_non_alnum_runs [] = []"
| "replace_non_alnum_runs (c # cs) =
     (if lower_alnum c then c # replace_non_alnum_runs cs
      else CHR ''-'' # replace_non_alnum_runs (dropWhile (\<lambda>d. \<not> lower_alnum d) cs))"
  by pat_completeness auto
termination
  by (relation "measure length") (auto simp: less_Suc_eq_le length_dropWhile_le)

text \<open>
  \<open>.replace(/^-|-$/g, '')\<close>: the global replacement scans from the left, so a hyphen at
  the start is removed first, and then a hyphen at the end of what is left.
\<close>

definition strip_edge_hyphens :: "string \<Rightarrow> string" where
  "strip_edge_hyphens s =
     (let s1 = (case s of [] \<Rightarrow> [] | c # cs \<Rightarrow> if c = CHR ''-'' then cs else s)
      in if s1 \<noteq> [] \<and> last s1 = CHR ''-'' then butlast s1 else s1)"

definition generateSlug :: "string \<Rightarrow> string" where
  "generateSlug name = strip_edge_hyphens (replace_non_alnum_runs (toLowerCase name))"

text \<open>What a well-formed slug is: only \<open>[a-z0-9]\<close> and hyphens, no hyphen at either end.\<close>

definition slug_char :: "char \<Rightarrow> bool" where
  "slug_char c = (lower_alnum c \<or> c = CHR ''-'')"

definition starts_with_hyphen :: "string \<Rightarrow> bool" where
  "starts_with_hyphen s = (case s of [] \<Rightarrow> False | c # _ \<Rightarrow> c = CHR ''-'')"

definition ends_with_hyphen :: "string \<Rightarrow> bool" where
  "ends_with_hyphen s = (s \<noteq> [] \<and> last s = CHR ''-'')"

text \<open>No two hyphens in a row: what the first replacement leaves.\<close>

fun no_double_hyphen :: "string \<Rightarrow> bool" where
  "no_double_hyphen (a # b # cs) = (\<not> (a = CHR ''-'' \<and> b = CHR ''-'') \<and> no_double_hyphen (b # cs))"
| "no_double_hyphen _ = True"

text \<open>The first of the two removals of \<open>strip_edge_hyphens\<close>, named for the proofs.\<close>

definition drop_leading_hyphen :: "string \<Rightarrow> string" where
  "drop_leading_hyphen s = (case s of [] \<Rightarrow> [] | c # cs \<Rightarrow> if c = CHR ''-'' then cs else s)"

section \<open>The issue-key generators\<close>

subsection \<open>What the database engine does with text and integers\<close>

text \<open>
  \<open>generate_issue_key\<close> is PL/pgSQL: its \<open>CAST(... AS INTEGER)\<close>, its integer addition and
  its \<open>||\<close> are the engine's. The errors they raise, and the function's own exception,
  are the values of one type.
\<close>

datatype pg_error =
    ProjectNotFound  \<comment> \<open>\<open>RAISE EXCEPTION 'Project not found'\<close>\<close>
  | InvalidTextRepresentation string  \<comment> \<open>invalid input syntax for type integer\<close>
  | NumericValueOutOfRange  \<comment> \<open>value or result outside the 32-bit \<open>INTEGER\<close>\<close>

definition int4_max :: int where
  "int4_max = 2147483647"

definition pg_isspace :: "char \<Rightarrow> bool" where
  "pg_isspace c = (let n = (of_char c :: int) in n = 32 \<or> (9 \<le> n \<and> n \<le> 13))"

definition pg_isdigit :: "char \<Rightarrow> bool" where
  "pg_isdigit c = (let n = (of_char c :: int) in 48 \<le> n \<and> n \<le> 57)"

definition digits_value :: "string \<Rightarrow> int" where
  "digits_value ds = foldl (\<lambda>acc c. 10 * acc + (of_char c - 48)) 0 ds"

text \<open>
  The integer input of the engine on decimal text: blanks, an optional sign, at least one
  digit, blanks, and nothing else; the value must fit 32 bits. The digits are read before
  the rest is looked at, so a value beyond the range is reported before trailing garbage.
  \<open>int4_of_parts\<close> is the decision once the text is cut into sign, digits and rest.
  Recent versions of the engine also read hexadecimal, octal and binary literals and
  underscores between digits; the results below use the cast only on decimal text and on
  text that no version accepts.
\<close>

definition int4_of_parts :: "string \<Rightarrow> bool \<Rightarrow> string \<Rightarrow> string \<Rightarrow> pg_error + int" where
  "int4_of_parts s neg ds rest =
     (if ds = [] then Inl (InvalidTextRepresentation s)
      else if 2147483648 < digits_value ds then Inl NumericValueOutOfRange
      else if rest \<noteq> [] then Inl (InvalidTextRepresentation s)
      else if \<not> neg \<and> digits_value ds = 2147483648 then Inl NumericValueOutOfRange
      else Inr (if neg then - digits_value ds else digits_value ds))"

definition cast_integer :: "string \<Rightarrow> pg_error + int" where
  "cast_integer s =
     (let s1 = dropWhile pg_isspace s;
          neg = (s1 \<noteq> [] \<and> hd s1 = CHR ''-'');
          s2 = (if s1 \<noteq> [] \<and> (hd s1 = CHR ''-'' \<or> hd s1 = CHR ''+'') then tl s1 else s1);
          ds = takeWhile pg_isdigit s2;
          rest = dropWhile pg_isspace (dropWhile pg_isdigit s2)
      in int4_of_parts s neg ds rest)"

text \<open>Integer addition of the engine: an error where the result leaves the 32-bit range.\<close>

definition int4pl :: "int \<Rightarrow> int \<Rightarrow> pg_error + int" where
  "int4pl a b =
     (if a + b < - int4_max - 1 \<or> int4_max < a + b then Inl NumericValueOutOfRange
      else Inr (a + b))"

text \<open>The decimal text of a number that is not negative, as the engine's integer output
  and JavaScript's template literal both print it; the engine puts a minus sign before the
  digits of a negative number.\<close>

function decimal :: "int \<Rightarrow> string" where
  "decimal n = (if n < 10 then [char_of (48 + n)] else decimal (n div 10) @ [char_of (48 + n mod 10)])"
  by pat_completeness auto
termination
  by (relation "measure nat") auto

declare decimal.simps [simp del]

definition int4out :: "int \<Rightarrow> string" where
  "int4out i = (if i < 0 then CHR ''-'' # decimal (- i) else decimal i)"

text \<open>\<open>SUBSTRING(s FROM n)\<close>: the characters of \<open>s\<close> from position \<open>n\<close>, counted from 1.\<close>

definition substring_from :: "string \<Rightarrow> nat \<Rightarrow> string" where
  "substring_from s n = drop (n - 1) s"

text \<open>The first error of a list of results, or all the values.\<close>

fun all_values :: "(pg_error + int) list \<Rightarrow> pg_error + int list" where
  "all_values [] = Inr []"
| "all_values (Inl e # rs) = Inl e"
| "all_values (Inr v # rs) = (case all_values rs of Inl e \<Rightarrow> Inl e | Inr vs \<Rightarrow> Inr (v # vs))"

text \<open>\<open>COALESCE(MAX(...), 0)\<close>: the aggregate over no row is NULL.\<close>

definition coalesce_max :: "int list \<Rightarrow> int" where
  "coalesce_max vs = (case vs of [] \<Rightarrow> 0 | v # rest \<Rightarrow> fold max rest v)"

subsection \<open>The stored procedure\<close>

text \<open>
  \<open>SELECT key INTO v_project_key FROM projects WHERE id = p_project_id\<close> leaves the
  variable NULL when no row matches, and \<open>key\<close> is \<open>NOT NULL\<close>; the suffixes of the
  project's issue keys are cast, their maximum (or 0) is incremented, and the key is
  concatenated. The function is \<open>SECURITY DEFINER\<close>: it reads the whole tables.
\<close>

definition issue_key_suffixes :: "database \<Rightarrow> string \<Rightarrow> uuid \<Rightarrow> string list" where
  "issue_key_suffixes db v_project_key p_project_id =
     map (\<lambda>i. substring_from (i_issue_key i) (length v_project_key + 2))
       (filter (\<lambda>i. i_project_id i = p_project_id) (issues db))"

definition generate_issue_key :: "database \<Rightarrow> uuid \<Rightarrow> pg_error + string" where
  "generate_issue_key db p_project_id =
     (case filter (\<lambda>p. p_id p = p_project_id) (projects db) of
        [] \<Rightarrow> Inl ProjectNotFound
      | p # _ \<Rightarrow>
          (let v_project_key = p_key p in
           case all_values (map cast_integer (issue_key_suffixes db v_project_key p_project_id)) of
             Inl e \<Rightarrow> Inl e
           | Inr vs \<Rightarrow>
               (case int4pl (coalesce_max vs) 1 of
                  Inl e \<Rightarrow> Inl e
                | Inr v_next_number \<Rightarrow> Inr (v_project_key @ ''-'' @ int4out v_next_number))))"

subsection \<open>The client-side generator (CreateIssueDialog)\<close>

text \<open>
  \<open>projects\<close> is the component's state, the rows \<open>loadProjects\<close> fetched; \<open>count\<close> is the
  \<open>count\<close> field of the response to the head query on \<open>issues\<close> with
  \<open>project_id = projectId\<close>, null (\<open>None\<close>) when the query failed. \<open>issues_count\<close> is the
  response of a query that succeeds and sees every issue of the project.
\<close>

definition generateIssueKey :: "project list \<Rightarrow> nat option \<Rightarrow> uuid \<Rightarrow> string option" where
  "generateIssueKey projects_state count projectId =
     (case find (\<lambda>p. p_id p = projectId) projects_state of
        None \<Rightarrow> None
      | Some project \<Rightarrow>
          Some (p_key project @ ''-'' @ decimal (int (case count of None \<Rightarrow> 0 | Some c \<Rightarrow> c) + 1)))"

definition issues_count :: "database \<Rightarrow> uuid \<Rightarrow> nat option" where
  "issues_count db projectId = Some (length (filter (\<lambda>i. i_project_id i = projectId) (issues db)))"

section \<open>Concrete states for the examples\<close>

definition empty_db :: database where
  "empty_db = \<lparr>user_roles = [], invites = [], deployments = [], profiles = [], projects = [],
               sprints = [], issues = [], boards = []\<rparr>"

definition project_AB :: project where
  "project_AB = \<lparr>p_id = 1, p_org_id = 9, p_name = ''Alpha'', p_key = ''AB''\<rparr>"

definition issue_AB :: "uuid \<Rightarrow> string \<Rightarrow> issue" where
  "issue_AB n k = \<lparr>i_id = n, i_project_id = 1, i_issue_key = k, i_reporter_id = 4\<rparr>"


section \<open>Row-level security: the SELECT policies\<close>

text \<open>
  Each definition is the \<open>USING\<close> expression of its \<open>CREATE POLICY ... FOR SELECT\<close>, read as
  a predicate on a row, for the signed-in user \<open>auth.uid()\<close>, with its sub-select
  evaluated over the whole tables of the state, as the expression is written. It says
  what the policy expresses. It does not say what a running engine answers to a query:
  the engine puts the sub-selects under row security too, and a policy on \<open>user_roles\<close>
  that selects from \<open>user_roles\<close> makes it refuse the query (infinite recursion detected
  in policy). The policies are those in force after both migrations: the second migration
  drops and recreates the policies of \<open>projects\<close> and \<open>issues\<close>, and leaves those of
  \<open>sprints\<close> and \<open>boards\<close> as the first migration created them.
\<close>

text \<open>\<open>org_id IN (SELECT org_id FROM user_roles WHERE user_id = auth.uid())\<close>\<close>

definition user_roles_select_policy :: "database \<Rightarrow> uuid \<Rightarrow> user_role \<Rightarrow> bool" where
  "user_roles_select_policy db auth_uid row =
     (ur_org_id row \<in> set [ur_org_id ur. ur \<leftarrow> user_roles db, ur_user_id ur = auth_uid])"

definition invites_select_policy :: "database \<Rightarrow> uuid \<Rightarrow> invite \<Rightarrow> bool" where
  "invites_select_policy db auth_uid row =
     (inv_org_id row \<in> set [ur_org_id ur. ur \<leftarrow> user_roles db, ur_user_id ur = auth_uid])"

definition projects_select_policy :: "database \<Rightarrow> uuid \<Rightarrow> project \<Rightarrow> bool" where
  "projects_select_policy db auth_uid row =
     (p_org_id row \<in> set [ur_org_id ur. ur \<leftarrow> user_roles db, ur_user_id ur = auth_uid])"

text \<open>
  \<open>project_id IN (SELECT p.id FROM projects p JOIN user_roles ur ON ur.org_id = p.org_id
  WHERE ur.user_id = auth.uid())\<close>
\<close>

definition deployments_select_policy :: "database \<Rightarrow> uuid \<Rightarrow> deployment \<Rightarrow> bool" where
  "deployments_select_policy db auth_uid row =
     (dep_project_id row \<in>
        set [p_id p. p \<leftarrow> projects db, ur \<leftarrow> user_roles db,
               ur_org_id ur = p_org_id p, ur_user_id ur = auth_uid])"

definition issues_select_policy :: "database \<Rightarrow> uuid \<Rightarrow> issue \<Rightarrow> bool" where
  "issues_select_policy db auth_uid row =
     (i_project_id row \<in>
        set [p_id p. p \<leftarrow> projects db, ur \<leftarrow> user_roles db,
               ur_org_id ur = p_org_id p, ur_user_id ur = auth_uid])"

text \<open>
  \<open>project_id IN (SELECT p.id FROM projects p INNER JOIN profiles pr ON pr.org_id = p.org_id
  WHERE pr.id = auth.uid())\<close>; a NULL \<open>pr.org_id\<close> joins with no project.
\<close>

definition sprints_select_policy :: "database \<Rightarrow> uuid \<Rightarrow> sprint \<Rightarrow> bool" where
  "sprints_select_policy db auth_uid row =
     (sp_project_id row \<in>
        set [p_id p. p \<leftarrow> projects db, pr \<leftarrow> profiles db,
               pr_org_id pr = Some (p_org_id p), pr_id pr = auth_uid])"

definition boards_select_policy :: "database \<Rightarrow> uuid \<Rightarrow> board \<Rightarrow> bool" where
  "boards_select_policy db auth_uid row =
     (b_project_id row \<in>
        set [p_id p. p \<leftarrow> projects db, pr \<leftarrow> profiles db,
               pr_org_id pr = Some (p_org_id p), pr_id pr = auth_uid])"

text \<open>
  What the policies are measured against: \<open>user_roles\<close> records a membership of the user
  in the organization; and the organization of a row that hangs on a project is the
  organization of a project row with that id.
\<close>

definition is_member :: "database \<Rightarrow> uuid \<Rightarrow> uuid \<Rightarrow> bool" where
  "is_member db uid oid =
     (\<exists>ur \<in> set (user_roles db). ur_user_id ur = uid \<and> ur_org_id ur = oid)"

definition member_of_project_org :: "database \<Rightarrow> uuid \<Rightarrow> uuid \<Rightarrow> bool" where
  "member_of_project_org db uid pid =
     (\<exists>p \<in> set (projects db). p_id p = pid \<and> is_member db uid (p_org_id p))"

text \<open>A state with a user who is a member according to \<open>user_roles\<close> while the profile row
  names another organization.\<close>

definition two_org_db :: database where
  "two_org_db = empty_db
     \<lparr>user_roles := [\<lparr>ur_id = 20, ur_user_id = 7, ur_org_id = 3, ur_role = Contributor\<rparr>,
                     \<lparr>ur_id = 21, ur_user_id = 7, ur_org_id = 4, ur_role = Contributor\<rparr>],
      profiles := [\<lparr>pr_id = 7, pr_org_id = Some 4, pr_email = ''u@example.org'', pr_role = Contributor\<rparr>],
      projects := [\<lparr>p_id = 1, p_org_id = 3, p_name = ''Alpha'', p_key = ''AB''\<rparr>],
      sprints := [\<lparr>sp_id = 30, sp_project_id = 1, sp_created_by = 8\<rparr>],
      issues := [\<lparr>i_id = 40, i_project_id = 1, i_issue_key = ''AB-1'', i_reporter_id = 8\<rparr>],
      boards := [\<lparr>b_id = 50, b_project_id = 1\<rparr>]\<rparr>"

section \<open>Accepting an invitation (AcceptInvite)\<close>

text \<open>
  The page talks to the hosted backend, which answers under the row-level-security policies
  of the signed-in user. What the backend decides is a parameter of the model: which
  invites the user's \<open>select\<close> can see, the name of the organization embedded in the
  invite row (null where the organization is not visible), and the three mutations, each
  of them either an error message or the new state.
\<close>

record backend =
  invite_visible :: "database \<Rightarrow> uuid \<Rightarrow> invite \<Rightarrow> bool"
  organization_name :: "database \<Rightarrow> uuid \<Rightarrow> uuid \<Rightarrow> string option"
  profile_update_org :: "database \<Rightarrow> uuid \<Rightarrow> uuid \<Rightarrow> string + database"
  user_role_insert :: "database \<Rightarrow> uuid \<Rightarrow> uuid \<Rightarrow> app_role \<Rightarrow> string + database"
  invite_mark_accepted :: "database \<Rightarrow> uuid \<Rightarrow> uuid \<Rightarrow> timestamp \<Rightarrow> string + database"

text \<open>The signed-in user of \<open>useAuth\<close>; \<open>user.email\<close> may be undefined.\<close>

record auth_user =
  au_id :: uuid
  au_email :: "string option"

text \<open>The component's state: \<open>status\<close>, \<open>message\<close> and \<open>orgName\<close>.\<close>

datatype accept_status = StatusLoading | StatusSuccess | StatusError | StatusExpired

record accept_view =
  av_status :: accept_status
  av_message :: string
  av_orgName :: string

definition initial_view :: accept_view where
  "initial_view = \<lparr>av_status = StatusLoading, av_message = '''', av_orgName = ''''\<rparr>"

text \<open>\<open>setStatus(s); setMessage(m)\<close> on the state.\<close>

definition report :: "accept_status \<Rightarrow> string \<Rightarrow> accept_view \<Rightarrow> accept_view" where
  "report s m v = v\<lparr>av_status := s, av_message := m\<rparr>"

text \<open>
  \<open>.from('invites').select('*, organizations(name)').eq('token', token)
  .is('accepted_at', null).single()\<close>: the rows the user can see that carry the token and
  are not accepted; \<open>single\<close> is an error unless there is exactly one. The page tests
  \<open>inviteError || !invite\<close>, so a query that fails and a query without a row are the same
  to it: both are \<open>None\<close>.
\<close>

definition select_pending_invite :: "backend \<Rightarrow> database \<Rightarrow> uuid \<Rightarrow> string \<Rightarrow> invite option" where
  "select_pending_invite be db uid token =
     (case filter (\<lambda>i. invite_visible be db uid i \<and> inv_token i = token \<and> inv_accepted_at i = None)
             (invites db) of
        [i] \<Rightarrow> Some i
      | _ \<Rightarrow> None)"

text \<open>\<open>error.message || 'Failed to accept invitation'\<close> in the \<open>catch\<close> block.\<close>

definition caught :: "string \<Rightarrow> accept_view \<Rightarrow> accept_view" where
  "caught msg v = report StatusError (if msg = [] then ''Failed to accept invitation'' else msg) v"

text \<open>
  \<open>acceptInvite\<close>: \<open>token\<close> is \<open>searchParams.get('token')\<close>, \<open>now\<close> the clock at the expiry
  check and \<open>accepted_now\<close> the clock when the invite is marked accepted. The result is the
  component's state and the state of the database. Reading \<open>.name\<close> of a null organization
  throws inside the \<open>try\<close> block, after the mutations.
\<close>

definition acceptInvite ::
  "backend \<Rightarrow> string option \<Rightarrow> auth_user option \<Rightarrow> timestamp \<Rightarrow> timestamp \<Rightarrow> database
     \<Rightarrow> accept_view \<times> database" where
  "acceptInvite be token user now accepted_now db =
     (case (token, user) of
        (Some t, Some u) \<Rightarrow>
          (if t = [] then (report StatusError ''Invalid invitation link'' initial_view, db)
           else case select_pending_invite be db (au_id u) t of
             None \<Rightarrow> (report StatusError ''Invitation not found or already accepted'' initial_view, db)
           | Some invite \<Rightarrow>
               if inv_expires_at invite < now
               then (report StatusExpired ''This invitation has expired'' initial_view, db)
               else if Some (toLowerCase (inv_email invite)) \<noteq> map_option toLowerCase (au_email u)
               then (report StatusError
                       ''This invitation was sent to a different email address'' initial_view, db)
               else case profile_update_org be db (au_id u) (inv_org_id invite) of
                 Inl profileError \<Rightarrow> (caught profileError initial_view, db)
               | Inr db1 \<Rightarrow>
                   (case user_role_insert be db1 (au_id u) (inv_org_id invite) (inv_role invite) of
                      Inl roleError \<Rightarrow> (caught roleError initial_view, db1)
                    | Inr db2 \<Rightarrow>
                        (case invite_mark_accepted be db2 (au_id u) (inv_id invite) accepted_now of
                           Inl updateError \<Rightarrow> (caught updateError initial_view, db2)
                         | Inr db3 \<Rightarrow>
                             (case organization_name be db (au_id u) (inv_org_id invite) of
                                None \<Rightarrow>
                                  (caught ''Cannot read properties of null (reading 'name')''
                                     initial_view, db3)
                              | Some name \<Rightarrow>
                                  (report StatusSuccess
                                     (''You've successfully joined '' @ name @ ''!'')
                                     (initial_view\<lparr>av_orgName := name\<rparr>), db3)))))
      | _ \<Rightarrow> (report StatusError ''Invalid invitation link'' initial_view, db))"

text \<open>The constraint \<open>token TEXT NOT NULL UNIQUE\<close> of \<open>invites\<close>.\<close>

definition invite_tokens_unique :: "database \<Rightarrow> bool" where
  "invite_tokens_unique db = distinct (map inv_token (invites db))"

text \<open>
  Two backends for the examples. Both carry out the mutations on the rows they name
  without any further check and show every organization under the name \<open>Acme\<close>. With
  \<open>policy_backend\<close> the query on \<open>invites\<close> returns the rows that the \<open>USING\<close> expression of the
  table's SELECT policy admits; with \<open>open_backend\<close> it returns every row, as a backend
  without row security on \<open>invites\<close> does.
\<close>

definition backend_of :: "(database \<Rightarrow> uuid \<Rightarrow> invite \<Rightarrow> bool) \<Rightarrow> backend" where
  "backend_of visible =
     \<lparr>invite_visible = visible,
      organization_name = (\<lambda>db uid oid. Some ''Acme''),
      profile_update_org = (\<lambda>db uid oid.
         Inr (db\<lparr>profiles := map (\<lambda>p. if pr_id p = uid then p\<lparr>pr_org_id := Some oid\<rparr> else p)
                                (profiles db)\<rparr>)),
      user_role_insert = (\<lambda>db uid oid r.
         Inr (db\<lparr>user_roles := user_roles db @
                 [\<lparr>ur_id = 0, ur_user_id = uid, ur_org_id = oid, ur_role = r\<rparr>]\<rparr>)),
      invite_mark_accepted = (\<lambda>db uid iid t.
         Inr (db\<lparr>invites := map (\<lambda>i. if inv_id i = iid
                                        then i\<lparr>inv_accepted_at := Some t, inv_accepted_by := Some uid\<rparr>
                                        else i) (invites db)\<rparr>))\<rparr>"

definition policy_backend :: backend where
  "policy_backend = backend_of invites_select_policy"

definition open_backend :: backend where
  "open_backend = backend_of (\<lambda>db uid i. True)"

text \<open>
  A state with four invites of organization 3, sent by its member 8 to the address of
  user 9, who is not a member of any organization; a state whose only invite has the empty
  token; and two signed-in users.
\<close>

definition invite_of :: "uuid \<Rightarrow> string \<Rightarrow> timestamp \<Rightarrow> timestamp option \<Rightarrow> invite" where
  "invite_of n token expires accepted =
     \<lparr>inv_id = n, inv_org_id = 3, inv_email = ''New.User@Example.org'', inv_role = Contributor,
      inv_token = token, inv_expires_at = expires, inv_created_by = 8,
      inv_accepted_at = accepted, inv_accepted_by = map_option (\<lambda>_. 10) accepted\<rparr>"

definition invites_db :: database where
  "invites_db = empty_db
     \<lparr>user_roles := [\<lparr>ur_id = 20, ur_user_id = 8, ur_org_id = 3, ur_role = Admin\<rparr>],
      invites := [invite_of 60 ''tok-accepted'' 5000 (Some 900),
                  invite_of 61 ''tok-expired'' 1000 None,
                  invite_of 62 ''tok-both'' 1000 (Some 900),
                  invite_of 63 ''tok-open'' 5000 None],
      profiles := [\<lparr>pr_id = 9, pr_org_id = None, pr_email = ''new.user@example.org'',
                    pr_role = Contributor\<rparr>]\<rparr>"

definition blank_token_db :: "timestamp option \<Rightarrow> database" where
  "blank_token_db accepted = empty_db\<lparr>invites := [invite_of 64 [] 1000 accepted]\<rparr>"

definition user_7 :: auth_user where
  "user_7 = \<lparr>au_id = 7, au_email = Some ''new.user@example.org''\<rparr>"

definition user_9 :: auth_user where
  "user_9 = \<lparr>au_id = 9, au_email = Some ''new.user@example.org''\<rparr>"

section \<open>Call sites of the client: what the user is shown\<close>

text \<open>
  What a handler shows is the list of its notifications in order: a toast with its title,
  description and whether its variant is \<open>destructive\<close>, or a line written with
  \<open>console.error\<close>, with its label and the error's message. The answer of a backend call
  is an argument of the handler: the error's message, or the data. The rows that a handler
  sends are part of the model where a property depends on them (the invite and the issue
  dialog); the form fields that a handler resets and its \<open>loading\<close> flag are not.
\<close>

datatype ui_event =
    Toast string string bool
  | ConsoleError string string

text \<open>\<open>error.message || fallback\<close>\<close>

definition message_or :: "string \<Rightarrow> string \<Rightarrow> string" where
  "message_or msg fallback = (if msg = [] then fallback else msg)"

subsection \<open>CreateInviteDialog\<close>

text \<open>The dialog's \<open>role\<close> state has the type \<open>'admin' | 'manager' | 'contributor' | 'viewer'\<close>.\<close>

datatype invite_role = InviteAdmin | InviteManager | InviteContributor | InviteViewer

fun app_role_of :: "invite_role \<Rightarrow> app_role" where
  "app_role_of InviteAdmin = Admin"
| "app_role_of InviteManager = Manager"
| "app_role_of InviteContributor = Contributor"
| "app_role_of InviteViewer = Viewer"

text \<open>The object the dialog hands to \<open>insert\<close> for one invite.\<close>

record new_invite =
  ni_org_id :: uuid
  ni_email :: string
  ni_role :: app_role
  ni_token :: string
  ni_expires_at :: timestamp
  ni_created_by :: uuid

text \<open>
  JavaScript's \<open>trim\<close> on code points below 256: tab, line feed, vertical tab, form feed,
  carriage return, space and no-break space are removed from both ends.
\<close>

definition js_whitespace :: "char \<Rightarrow> bool" where
  "js_whitespace c = (let n = (of_char c :: nat) in (9 \<le> n \<and> n \<le> 13) \<or> n = 32 \<or> n = 160)"

definition trim :: "string \<Rightarrow> string" where
  "trim s = rev (dropWhile js_whitespace (rev (dropWhile js_whitespace s)))"

definition valid_emails :: "string list \<Rightarrow> string list" where
  "valid_emails emails = filter (\<lambda>e. trim e \<noteq> [] \<and> CHR ''@'' \<in> set e) emails"

text \<open>Seven days in milliseconds, as the source writes it.\<close>

definition seven_days_ms :: int where
  "seven_days_ms = 7 * 24 * 60 * 60 * 1000"

text \<open>
  The rows of \<open>validEmails.map(...)\<close>: the callback runs once per address, and each run
  reads \<open>crypto.randomUUID()\<close> and \<open>Date.now()\<close> anew; \<open>uuids k\<close> and \<open>clock k\<close> are the
  readings of the run with index \<open>k\<close>.
\<close>

fun invite_rows ::
  "uuid \<Rightarrow> invite_role \<Rightarrow> uuid \<Rightarrow> (nat \<Rightarrow> string) \<Rightarrow> (nat \<Rightarrow> timestamp) \<Rightarrow> nat \<Rightarrow> string list
     \<Rightarrow> new_invite list" where
  "invite_rows orgId role uid uuids clock k [] = []"
| "invite_rows orgId role uid uuids clock k (email # rest) =
     \<lparr>ni_org_id = orgId, ni_email = toLowerCase (trim email), ni_role = app_role_of role,
      ni_token = uuids k, ni_expires_at = clock k + seven_days_ms, ni_created_by = uid\<rparr>
     # invite_rows orgId role uid uuids clock (Suc k) rest"

text \<open>The outcome of a submit: the rows handed to \<open>insert\<close> (none when the handler did not get
  that far), whether they were stored, and what the user was shown.\<close>

record invite_submit =
  is_rows :: "new_invite list"
  is_stored :: bool
  is_events :: "ui_event list"

text \<open>
  \<open>handleSubmit\<close> of the dialog. \<open>user\<close> is the answer of \<open>supabase.auth.getUser()\<close> and
  \<open>insert_rows\<close> the answer of the backend to the rows: \<open>None\<close> for success, or the error's
  message.
\<close>

definition invite_handleSubmit ::
  "string list \<Rightarrow> invite_role \<Rightarrow> uuid \<Rightarrow> auth_user option \<Rightarrow> (nat \<Rightarrow> string) \<Rightarrow> (nat \<Rightarrow> timestamp)
     \<Rightarrow> (new_invite list \<Rightarrow> string option) \<Rightarrow> invite_submit" where
  "invite_handleSubmit emails role orgId user uuids clock insert_rows =
     (let validEmails = valid_emails emails in
      if validEmails = [] then
        \<lparr>is_rows = [], is_stored = False,
         is_events = [Toast ''Error'' ''Please enter at least one valid email'' True]\<rparr>
      else case user of
        None \<Rightarrow>
          \<lparr>is_rows = [], is_stored = False,
           is_events = [Toast ''Error'' (message_or ''Not authenticated'' ''Failed to send invitations'') True]\<rparr>
      | Some u \<Rightarrow>
          (let rows = invite_rows orgId role (au_id u) uuids clock 0 validEmails in
           case insert_rows rows of
             Some msg \<Rightarrow>
               \<lparr>is_rows = rows, is_stored = False,
                is_events = [Toast ''Error'' (message_or msg ''Failed to send invitations'') True]\<rparr>
           | None \<Rightarrow>
               \<lparr>is_rows = rows, is_stored = True,
                is_events = [Toast ''Success''
                   (''Sent '' @ decimal (int (length validEmails)) @ '' invitation''
                      @ (if 1 < length validEmails then ''s'' else '''')) False]\<rparr>))"

subsection \<open>CreateIssueDialog\<close>

record new_issue =
  nw_project_id :: uuid
  nw_issue_key :: string
  nw_title :: string
  nw_reporter_id :: uuid

record issue_submit =
  iu_row :: "new_issue option"
  iu_stored :: bool
  iu_events :: "ui_event list"

text \<open>
  \<open>handleSubmit\<close> of the dialog: it returns at once without a user or a project id (an
  empty \<open>projectId\<close> is \<open>None\<close>); a null key is thrown as 'Failed to generate issue key'.
\<close>

definition issue_handleSubmit ::
  "auth_user option \<Rightarrow> uuid option \<Rightarrow> project list \<Rightarrow> nat option \<Rightarrow> string
     \<Rightarrow> (new_issue \<Rightarrow> string option) \<Rightarrow> issue_submit" where
  "issue_handleSubmit user projectId projects_state count title insert_row =
     (case (user, projectId) of
        (Some u, Some pid) \<Rightarrow>
          (case generateIssueKey projects_state count pid of
             None \<Rightarrow>
               \<lparr>iu_row = None, iu_stored = False,
                iu_events = [Toast ''Error''
                   (message_or ''Failed to generate issue key'' ''Failed to create issue'') True]\<rparr>
           | Some issueKey \<Rightarrow>
               (let row = \<lparr>nw_project_id = pid, nw_issue_key = issueKey, nw_title = title,
                           nw_reporter_id = au_id u\<rparr> in
                case insert_row row of
                  Some msg \<Rightarrow>
                    \<lparr>iu_row = Some row, iu_stored = False,
                     iu_events = [Toast ''Error'' (message_or msg ''Failed to create issue'') True]\<rparr>
                | None \<Rightarrow>
                    \<lparr>iu_row = Some row, iu_stored = True,
                     iu_events = [Toast ''Success''
                        (''Issue '' @ issueKey @ '' created successfully!'') False]\<rparr>))
      | _ \<Rightarrow> \<lparr>iu_row = None, iu_stored = False, iu_events = []\<rparr>)"

subsection \<open>CreateOrgDialog\<close>

text \<open>
  \<open>handleSubmit\<close> of the dialog: it returns at once without a user. \<open>insert_org\<close> is the
  answer to \<open>insert(...).select().single()\<close> on \<open>organizations\<close>, the error's message or the
  id of the new row, and \<open>update_profile\<close> the answer to the update of the user's profile,
  which is sent only after the insert succeeded: \<open>None\<close> for success, or the error's
  message.
\<close>

definition org_handleSubmit :: "auth_user option \<Rightarrow> string + uuid \<Rightarrow> string option \<Rightarrow> ui_event list" where
  "org_handleSubmit user insert_org update_profile =
     (case user of
        None \<Rightarrow> []
      | Some u \<Rightarrow>
          (case insert_org of
             Inl orgError \<Rightarrow>
               [Toast ''Error'' (message_or orgError ''Failed to create organization'') True]
           | Inr org_id \<Rightarrow>
               (case update_profile of
                  Some profileError \<Rightarrow>
                    [Toast ''Error'' (message_or profileError ''Failed to create organization'') True]
                | None \<Rightarrow> [Toast ''Success'' ''Organization created successfully!'' False])))"

subsection \<open>CreateProjectDialog\<close>

text \<open>
  \<open>handleSubmit\<close> of the dialog: without a user or an organization (\<open>orgId\<close> is null until
  \<open>loadUserOrg\<close> has found one) it shows a toast and sends nothing; \<open>insert_project\<close> is the
  answer to the insert into \<open>projects\<close>.
\<close>

definition project_handleSubmit :: "auth_user option \<Rightarrow> uuid option \<Rightarrow> string option \<Rightarrow> ui_event list" where
  "project_handleSubmit user orgId insert_project =
     (case (user, orgId) of
        (Some u, Some oid) \<Rightarrow>
          (case insert_project of
             Some err \<Rightarrow> [Toast ''Error'' (message_or err ''Failed to create project'') True]
           | None \<Rightarrow> [Toast ''Success'' ''Project created successfully!'' False])
      | _ \<Rightarrow> [Toast ''Error'' ''You must be part of an organization to create a project'' True])"

subsection \<open>CreateSprintDialog\<close>

text \<open>The dialog's \<open>type\<close> state has the type \<open>'sprint' | 'spike'\<close>.\<close>

datatype sprint_type = TypeSprint | TypeSpike

text \<open>
  \<open>handleSubmit\<close> of the dialog: it returns at once without a user or a project id (an
  empty \<open>projectId\<close> is \<open>None\<close>); \<open>insert_sprint\<close> is the answer to the insert into \<open>sprints\<close>.
\<close>

definition sprint_handleSubmit ::
  "auth_user option \<Rightarrow> uuid option \<Rightarrow> sprint_type \<Rightarrow> string option \<Rightarrow> ui_event list" where
  "sprint_handleSubmit user projectId type insert_sprint =
     (case (user, projectId) of
        (Some u, Some pid) \<Rightarrow>
          (case insert_sprint of
             Some err \<Rightarrow> [Toast ''Error'' (message_or err ''Failed to create sprint'') True]
           | None \<Rightarrow>
               [Toast ''Success''
                  ((if type = TypeSprint then ''Sprint'' else ''Spike'') @ '' created successfully!'')
                  False])
      | _ \<Rightarrow> [])"

subsection \<open>IssueDetailSheet\<close>

text \<open>
  \<open>loadIssue\<close>: without an issue id it returns at once; \<open>answer\<close> is the answer to
  \<open>select('*').eq('id', issueId).single()\<close>. The result is the sheet's \<open>issue\<close> state and what
  the user is shown; the toast of the \<open>catch\<close> block carries a fixed text.
\<close>

definition loadIssue :: "uuid option \<Rightarrow> string + issue \<Rightarrow> issue option \<Rightarrow> issue option \<times> ui_event list" where
  "loadIssue issueId answer st =
     (case issueId of
        None \<Rightarrow> (st, [])
      | Some iid \<Rightarrow>
          (case answer of
             Inl err \<Rightarrow> (st, [Toast ''Error'' ''Failed to load issue details'' True])
           | Inr data \<Rightarrow> (Some data, [])))"

text \<open>
  \<open>updateIssueField(field, value)\<close>: without an issue id it returns at once; \<open>answer\<close> is the
  answer to the update of \<open>issues\<close>.
\<close>

definition updateIssueField :: "uuid option \<Rightarrow> string \<Rightarrow> string option \<Rightarrow> ui_event list" where
  "updateIssueField issueId field answer =
     (case issueId of
        None \<Rightarrow> []
      | Some iid \<Rightarrow>
          (case answer of
             Some err \<Rightarrow> [Toast ''Error'' (message_or err ''Failed to update issue'') True]
           | None \<Rightarrow> [Toast ''Updated'' (''Issue '' @ field @ '' updated successfully'') False]))"

subsection \<open>Board\<close>

record board_state =
  bs_issues :: "issue list"
  bs_loading :: bool

text \<open>
  \<open>loadIssues\<close>: without a user it returns at once; an error of the query is thrown,
  caught, and written with \<open>console.error\<close>; \<open>finally\<close> clears \<open>loading\<close>.
\<close>

definition loadIssues :: "auth_user option \<Rightarrow> string + issue list \<Rightarrow> board_state
    \<Rightarrow> board_state \<times> ui_event list" where
  "loadIssues user response st =
     (case user of
        None \<Rightarrow> (st, [])
      | Some u \<Rightarrow>
          (case response of
             Inl err \<Rightarrow> (st\<lparr>bs_loading := False\<rparr>, [ConsoleError ''Error loading issues:'' err])
           | Inr data \<Rightarrow> (st\<lparr>bs_issues := data, bs_loading := False\<rparr>, [])))"

text \<open>Whether a toast is among the notifications.\<close>

fun is_toast :: "ui_event \<Rightarrow> bool" where
  "is_toast (Toast _ _ _) = True"
| "is_toast (ConsoleError _ _) = False"

subsection \<open>Dashboard\<close>

record stats =
  st_projects :: nat
  st_activeIssues :: nat
  st_completedIssues :: nat

text \<open>
  What one of the three \<open>head\<close> queries of \<open>loadStats\<close> does: it throws, or it answers with
  an object whose \<open>error\<close> and \<open>count\<close> may each be null. The client library answers a
  backend error with an object that carries the error, without throwing.
\<close>

datatype count_answer =
    Throws string
  | Answers "string option" "nat option"

text \<open>\<open>count || 0\<close>\<close>

fun count_or_0 :: "nat option \<Rightarrow> nat" where
  "count_or_0 None = 0"
| "count_or_0 (Some n) = n"

text \<open>
  \<open>loadStats\<close>: without a user it returns at once. The three queries are awaited in turn
  and only \<open>count\<close> is taken from each answer; \<open>setStats\<close> stores \<open>count || 0\<close> of each. What
  a query throws ends the \<open>try\<close> block and is written with \<open>console.error\<close>.
\<close>

definition loadStats ::
  "auth_user option \<Rightarrow> count_answer \<Rightarrow> count_answer \<Rightarrow> count_answer \<Rightarrow> stats
     \<Rightarrow> stats \<times> ui_event list" where
  "loadStats user projectQuery activeQuery doneQuery st =
     (case user of
        None \<Rightarrow> (st, [])
      | Some u \<Rightarrow>
          (case projectQuery of
             Throws err \<Rightarrow> (st, [ConsoleError ''Error loading stats:'' err])
           | Answers _ projectCount \<Rightarrow>
               (case activeQuery of
                  Throws err \<Rightarrow> (st, [ConsoleError ''Error loading stats:'' err])
                | Answers _ activeCount \<Rightarrow>
                    (case doneQuery of
                       Throws err \<Rightarrow> (st, [ConsoleError ''Error loading stats:'' err])
                     | Answers _ doneCount \<Rightarrow>
                         (\<lparr>st_projects = count_or_0 projectCount,
                           st_activeIssues = count_or_0 activeCount,
                           st_completedIssues = count_or_0 doneCount\<rparr>, [])))))"
section \<open>Primary keys and UNIQUE constraints\<close>

text \<open>
  The tables \<open>user_roles\<close>, \<open>projects\<close> and \<open>issues\<close> each declare \<open>id ... PRIMARY KEY\<close> and
  one \<open>UNIQUE\<close> constraint over two \<open>NOT NULL\<close> columns. The engine checks both when a row
  is written: a statement that meets a conflict raises an error and is rolled back as a
  whole. A statement on one table is an insert of a row, an insert with \<open>ON CONFLICT (...)
  DO NOTHING\<close> on the unique columns (the second migration moves the roles of \<open>profiles\<close>
  into \<open>user_roles\<close> with it), an update of the rows that satisfy a condition, or a delete
  (which is also what \<open>ON DELETE CASCADE\<close> does to a table).
\<close>

datatype constraint_error = PrimaryKeyViolation | UniqueViolation

datatype 'r table_write =
    Insert 'r
  | InsertOnConflictDoNothing 'r
  | Update "'r \<Rightarrow> bool" "'r \<Rightarrow> 'r"
  | Delete "'r \<Rightarrow> bool"

text \<open>\<open>pk\<close> reads the primary key of a row and \<open>uq\<close> its unique columns.\<close>

definition insert_checked ::
  "('r \<Rightarrow> 'k) \<Rightarrow> ('r \<Rightarrow> 'u) \<Rightarrow> 'r list \<Rightarrow> 'r \<Rightarrow> constraint_error + 'r list" where
  "insert_checked pk uq rows r =
     (if pk r \<in> set (map pk rows) then Inl PrimaryKeyViolation
      else if uq r \<in> set (map uq rows) then Inl UniqueViolation
      else Inr (rows @ [r]))"

definition insert_do_nothing ::
  "('r \<Rightarrow> 'k) \<Rightarrow> ('r \<Rightarrow> 'u) \<Rightarrow> 'r list \<Rightarrow> 'r \<Rightarrow> constraint_error + 'r list" where
  "insert_do_nothing pk uq rows r =
     (if uq r \<in> set (map uq rows) then Inr rows
      else if pk r \<in> set (map pk rows) then Inl PrimaryKeyViolation
      else Inr (rows @ [r]))"

text \<open>
  An update visits the rows one after the other. The constraints are not deferrable, so
  the new version of a row is checked at once against all other rows as they are at that
  moment: those already visited (\<open>seen\<close>) and those still to come (\<open>todo\<close>).
\<close>

fun update_rows ::
  "('r \<Rightarrow> 'k) \<Rightarrow> ('r \<Rightarrow> 'u) \<Rightarrow> ('r \<Rightarrow> bool) \<Rightarrow> ('r \<Rightarrow> 'r) \<Rightarrow> 'r list \<Rightarrow> 'r list
     \<Rightarrow> constraint_error + 'r list" where
  "update_rows pk uq cond f seen [] = Inr seen"
| "update_rows pk uq cond f seen (r # todo) =
     (if cond r then
        (if pk (f r) \<in> set (map pk (seen @ todo)) then Inl PrimaryKeyViolation
         else if uq (f r) \<in> set (map uq (seen @ todo)) then Inl UniqueViolation
         else update_rows pk uq cond f (seen @ [f r]) todo)
      else update_rows pk uq cond f (seen @ [r]) todo)"

fun exec_write ::
  "('r \<Rightarrow> 'k) \<Rightarrow> ('r \<Rightarrow> 'u) \<Rightarrow> 'r list \<Rightarrow> 'r table_write \<Rightarrow> constraint_error + 'r list" where
  "exec_write pk uq rows (Insert r) = insert_checked pk uq rows r"
| "exec_write pk uq rows (InsertOnConflictDoNothing r) = insert_do_nothing pk uq rows r"
| "exec_write pk uq rows (Update cond f) = update_rows pk uq cond f [] rows"
| "exec_write pk uq rows (Delete cond) = Inr (filter (\<lambda>r. \<not> cond r) rows)"

text \<open>
  What a statement asks for, with no constraint looked at: the table it would leave
  behind. \<open>DO NOTHING\<close> asks for the row only where its unique columns are free.
\<close>

fun requested ::
  "('r \<Rightarrow> 'u) \<Rightarrow> 'r list \<Rightarrow> 'r table_write \<Rightarrow> 'r list" where
  "requested uq rows (Insert r) = rows @ [r]"
| "requested uq rows (InsertOnConflictDoNothing r) =
     (if uq r \<in> set (map uq rows) then rows else rows @ [r])"
| "requested uq rows (Update cond f) = map (\<lambda>r. if cond r then f r else r) rows"
| "requested uq rows (Delete cond) = filter (\<lambda>r. \<not> cond r) rows"

text \<open>The unique columns of the three tables.\<close>

definition user_role_unique_columns :: "user_role \<Rightarrow> uuid \<times> uuid" where
  "user_role_unique_columns r = (ur_user_id r, ur_org_id r)"

definition project_unique_columns :: "project \<Rightarrow> uuid \<times> string" where
  "project_unique_columns p = (p_org_id p, p_key p)"

definition issue_unique_columns :: "issue \<Rightarrow> uuid \<times> string" where
  "issue_unique_columns i = (i_project_id i, i_issue_key i)"

text \<open>A statement names its table; a failed statement leaves the state as it was.\<close>

datatype statement =
    OnUserRoles "user_role table_write"
  | OnProjects "project table_write"
  | OnIssues "issue table_write"

fun exec :: "database \<Rightarrow> statement \<Rightarrow> constraint_error option \<times> database" where
  "exec db (OnUserRoles w) =
     (case exec_write ur_id user_role_unique_columns (user_roles db) w of
        Inl e \<Rightarrow> (Some e, db)
      | Inr rows \<Rightarrow> (None, db\<lparr>user_roles := rows\<rparr>))"
| "exec db (OnProjects w) =
     (case exec_write p_id project_unique_columns (projects db) w of
        Inl e \<Rightarrow> (Some e, db)
      | Inr rows \<Rightarrow> (None, db\<lparr>projects := rows\<rparr>))"
| "exec db (OnIssues w) =
     (case exec_write i_id issue_unique_columns (issues db) w of
        Inl e \<Rightarrow> (Some e, db)
      | Inr rows \<Rightarrow> (None, db\<lparr>issues := rows\<rparr>))"

fun requested_state :: "database \<Rightarrow> statement \<Rightarrow> database" where
  "requested_state db (OnUserRoles w) =
     db\<lparr>user_roles := requested user_role_unique_columns (user_roles db) w\<rparr>"
| "requested_state db (OnProjects w) =
     db\<lparr>projects := requested project_unique_columns (projects db) w\<rparr>"
| "requested_state db (OnIssues w) =
     db\<lparr>issues := requested issue_unique_columns (issues db) w\<rparr>"

text \<open>The three uniqueness properties of a state.\<close>

definition no_duplicate_issue_key :: "database \<Rightarrow> bool" where
  "no_duplicate_issue_key db = distinct (map (\<lambda>i. (i_project_id i, i_issue_key i)) (issues db))"

definition no_duplicate_project_key :: "database \<Rightarrow> bool" where
  "no_duplicate_project_key db = distinct (map (\<lambda>p. (p_org_id p, p_key p)) (projects db))"

definition uniqueness :: "database \<Rightarrow> bool" where
  "uniqueness db =
     (no_duplicate_issue_key db \<and> no_duplicate_project_key db \<and> user_roles_unique db)"

text \<open>
  The states the database can be in: the empty tables the migrations create, then any
  statement on the three tables; writes to the other tables, whose constraints are not
  followed here, change only those tables.
\<close>

inductive reachable :: "database \<Rightarrow> bool" where
  created: "reachable empty_db"
| statement: "reachable db \<Longrightarrow> reachable (snd (exec db s))"
| elsewhere: "reachable db \<Longrightarrow>
     reachable (db\<lparr>invites := iv, deployments := dp, profiles := pr, sprints := sp, boards := bd\<rparr>)"

section \<open>Properties of the helpers\<close>

lemma filter_key_of_distinct:
  "distinct (map k xs) \<Longrightarrow> x \<in> set xs \<Longrightarrow> filter (\<lambda>y. k y = k x) xs = [x]"
proof (induction xs)
  case Nil
  then show ?case by simp
next
  case (Cons a xs)
  show ?case
  proof (cases "a = x")
    case True
    have "k y \<noteq> k x" if "y \<in> set xs" for y
      using Cons.prems(1) True that by (auto simp: image_iff)
    then have "filter (\<lambda>y. k y = k x) xs = []"
      by (simp add: filter_empty_conv)
    with True show ?thesis by simp
  next
    case False
    with Cons.prems have "x \<in> set xs" and "distinct (map k xs)" by auto
    then have "filter (\<lambda>y. k y = k x) xs = [x]"
      using Cons.IH by blast
    moreover have "k a \<noteq> k x"
      using Cons.prems(1) \<open>x \<in> set xs\<close> by (auto simp: image_iff)
    ultimately show ?thesis by simp
  qed
qed

text \<open>
  Claim C7. \<open>has_role\<close> holds exactly when a \<open>user_roles\<close> row with that user, organization
  and role exists. When the pair (user, organization) is unique in \<open>user_roles\<close>, as the
  table's constraint demands, \<open>get_user_role\<close> returns the role of the row of that pair,
  and it returns no role when no row has the pair.
\<close>

theorem has_role_get_user_role_spec:
  "(has_role db uid oid r \<longleftrightarrow>
      (\<exists>row \<in> set (user_roles db). ur_user_id row = uid \<and> ur_org_id row = oid \<and> ur_role row = r))
   \<and> (user_roles_unique db \<longrightarrow>
        (\<forall>row \<in> set (user_roles db). ur_user_id row = uid \<and> ur_org_id row = oid \<longrightarrow>
           get_user_role db uid oid = Some (ur_role row)))
   \<and> ((\<forall>row \<in> set (user_roles db). \<not> (ur_user_id row = uid \<and> ur_org_id row = oid)) \<longrightarrow>
        get_user_role db uid oid = None)"
proof (intro conjI impI ballI)
  show "has_role db uid oid r \<longleftrightarrow>
      (\<exists>row \<in> set (user_roles db). ur_user_id row = uid \<and> ur_org_id row = oid \<and> ur_role row = r)"
    by (auto simp: has_role_def filter_empty_conv)
next
  fix row
  assume u: "user_roles_unique db" and m: "row \<in> set (user_roles db)"
    and k: "ur_user_id row = uid \<and> ur_org_id row = oid"
  have "filter (\<lambda>x. ur_user_id x = uid \<and> ur_org_id x = oid) (user_roles db) = [row]"
    using u m k filter_key_of_distinct [of "\<lambda>x. (ur_user_id x, ur_org_id x)" "user_roles db" row]
    by (simp add: user_roles_unique_def)
  then show "get_user_role db uid oid = Some (ur_role row)"
    by (simp add: get_user_role_def)
next
  assume "\<forall>row \<in> set (user_roles db). \<not> (ur_user_id row = uid \<and> ur_org_id row = oid)"
  then have "filter (\<lambda>x. ur_user_id x = uid \<and> ur_org_id x = oid) (user_roles db) = []"
    by (auto simp: filter_empty_conv)
  then show "get_user_role db uid oid = None"
    by (simp add: get_user_role_def)
qed

theorem has_role_get_user_role_spec_witness:
  "has_role \<lparr>user_roles = [\<lparr>ur_id = 1, ur_user_id = 7, ur_org_id = 3, ur_role = Manager\<rparr>,
                               \<lparr>ur_id = 2, ur_user_id = 7, ur_org_id = 4, ur_role = Viewer\<rparr>],
             invites = [], deployments = [], profiles = [], projects = [], sprints = [],
             issues = [], boards = []\<rparr> 7 3 Manager
   \<and> get_user_role \<lparr>user_roles = [\<lparr>ur_id = 1, ur_user_id = 7, ur_org_id = 3, ur_role = Manager\<rparr>,
                               \<lparr>ur_id = 2, ur_user_id = 7, ur_org_id = 4, ur_role = Viewer\<rparr>],
             invites = [], deployments = [], profiles = [], projects = [], sprints = [],
             issues = [], boards = []\<rparr> 7 3 = Some Manager"
  using has_role_get_user_role_spec
    [of "\<lparr>user_roles = [\<lparr>ur_id = 1, ur_user_id = 7, ur_org_id = 3, ur_role = Manager\<rparr>,
                               \<lparr>ur_id = 2, ur_user_id = 7, ur_org_id = 4, ur_role = Viewer\<rparr>],
             invites = [], deployments = [], profiles = [], projects = [], sprints = [],
             issues = [], boards = []\<rparr>" 7 3 Manager]
  by (simp add: user_roles_unique_def)

section \<open>Properties of the slug generator\<close>

lemma generateSlug_example: "generateSlug '' Acme, Inc. -- R&D 2 '' = ''acme-inc-r-d-2''"
  by code_simp

lemma toLowerCase_char_fix: "slug_char c \<Longrightarrow> toLowerCase_char c = c"
  by (auto simp: slug_char_def lower_alnum_def toLowerCase_char_def Let_def)

lemma hyphen_not_alnum: "\<not> lower_alnum (CHR ''-'')"
  by (simp add: lower_alnum_def)

lemma toLowerCase_fix: "list_all slug_char s \<Longrightarrow> toLowerCase s = s"
  by (induction s) (simp_all add: toLowerCase_def toLowerCase_char_fix)

lemma replace_chars: "list_all slug_char (replace_non_alnum_runs s)"
  by (induction s rule: replace_non_alnum_runs.induct) (simp_all add: slug_char_def)

lemma replace_head:
  "replace_non_alnum_runs (dropWhile (\<lambda>d. \<not> lower_alnum d) cs) = [] \<or>
   hd (replace_non_alnum_runs (dropWhile (\<lambda>d. \<not> lower_alnum d) cs)) \<noteq> CHR ''-''"
proof (cases "dropWhile (\<lambda>d. \<not> lower_alnum d) cs")
  case Nil
  show ?thesis unfolding Nil by simp
next
  case (Cons a as)
  then have "lower_alnum a"
    using hd_dropWhile [of "\<lambda>d. \<not> lower_alnum d" cs] by auto
  with Cons show ?thesis using hyphen_not_alnum by auto
qed

lemma no_double_hyphen_Cons:
  "no_double_hyphen (a # s) \<longleftrightarrow> (s = [] \<or> \<not> (a = CHR ''-'' \<and> hd s = CHR ''-'')) \<and> no_double_hyphen s"
  by (cases s) auto

lemma replace_no_double: "no_double_hyphen (replace_non_alnum_runs s)"
proof (induction s rule: replace_non_alnum_runs.induct)
  case 1
  then show ?case by simp
next
  case (2 c cs)
  show ?case
  proof (cases "lower_alnum c")
    case True
    with 2 hyphen_not_alnum show ?thesis by (auto simp: no_double_hyphen_Cons)
  next
    case False
    with 2 replace_head [of cs] show ?thesis by (auto simp: no_double_hyphen_Cons)
  qed
qed

lemma no_double_hyphen_butlast: "no_double_hyphen s \<Longrightarrow> no_double_hyphen (butlast s)"
  by (induction s rule: no_double_hyphen.induct) (auto split: if_splits)

lemma no_double_hyphen_last:
  "no_double_hyphen s \<Longrightarrow> s \<noteq> [] \<Longrightarrow> last s = CHR ''-'' \<Longrightarrow> \<not> ends_with_hyphen (butlast s)"
  by (induction s rule: no_double_hyphen.induct) (auto simp: ends_with_hyphen_def split: if_splits)

lemma starts_butlast: "\<not> starts_with_hyphen s \<Longrightarrow> \<not> starts_with_hyphen (butlast s)"
  by (cases s) (auto simp: starts_with_hyphen_def split: list.splits)

lemma strip_chars: "list_all slug_char s \<Longrightarrow> list_all slug_char (strip_edge_hyphens s)"
  by (cases s) (auto simp: strip_edge_hyphens_def list_all_iff dest: in_set_butlastD)

lemma replace_fix:
  "list_all slug_char s \<Longrightarrow> no_double_hyphen s \<Longrightarrow> replace_non_alnum_runs s = s"
proof (induction s rule: replace_non_alnum_runs.induct)
  case 1
  then show ?case by simp
next
  case (2 c cs)
  show ?case
  proof (cases "lower_alnum c")
    case True
    with 2 show ?thesis by (auto simp: no_double_hyphen_Cons)
  next
    case False
    with 2 have c: "c = CHR ''-''" by (simp add: slug_char_def)
    have "dropWhile (\<lambda>d. \<not> lower_alnum d) cs = cs"
    proof (cases cs)
      case Nil then show ?thesis by simp
    next
      case (Cons a as)
      with 2 c have "a \<noteq> CHR ''-''" "slug_char a" by auto
      then have "lower_alnum a" by (simp add: slug_char_def)
      with Cons show ?thesis by simp
    qed
    with 2 False c show ?thesis by (auto simp: no_double_hyphen_Cons)
  qed
qed

lemma strip_fix:
  "\<not> starts_with_hyphen s \<Longrightarrow> \<not> ends_with_hyphen s \<Longrightarrow> strip_edge_hyphens s = s"
  by (cases s) (auto simp: strip_edge_hyphens_def starts_with_hyphen_def ends_with_hyphen_def)


lemma strip_via_leading:
  "strip_edge_hyphens s =
     (if ends_with_hyphen (drop_leading_hyphen s) then butlast (drop_leading_hyphen s)
      else drop_leading_hyphen s)"
  by (simp add: strip_edge_hyphens_def drop_leading_hyphen_def ends_with_hyphen_def Let_def)

lemma leading_props:
  "no_double_hyphen s \<Longrightarrow>
     no_double_hyphen (drop_leading_hyphen s) \<and> \<not> starts_with_hyphen (drop_leading_hyphen s)"
  by (cases s) (auto simp: drop_leading_hyphen_def starts_with_hyphen_def no_double_hyphen_Cons
      split: list.splits)

lemma strip_shape:
  assumes "no_double_hyphen s"
  shows "\<not> starts_with_hyphen (strip_edge_hyphens s) \<and> \<not> ends_with_hyphen (strip_edge_hyphens s)
         \<and> no_double_hyphen (strip_edge_hyphens s)"
proof -
  let ?t = "drop_leading_hyphen s"
  from assms have t: "no_double_hyphen ?t" "\<not> starts_with_hyphen ?t"
    using leading_props by blast+
  show ?thesis
  proof (cases "ends_with_hyphen ?t")
    case True
    then have "?t \<noteq> []" "last ?t = CHR ''-''" by (simp_all add: ends_with_hyphen_def)
    with t have "\<not> ends_with_hyphen (butlast ?t)" "\<not> starts_with_hyphen (butlast ?t)"
      "no_double_hyphen (butlast ?t)"
      using no_double_hyphen_last starts_butlast no_double_hyphen_butlast by blast+
    with True show ?thesis by (simp add: strip_via_leading)
  next
    case False
    with t show ?thesis by (simp add: strip_via_leading)
  qed
qed

text \<open>
  Claim C10. For every input string, \<open>generateSlug\<close> returns a string of lowercase
  letters, digits and hyphens only, which neither starts nor ends with a hyphen, and
  \<open>generateSlug\<close> applied to its own output returns that output unchanged.
\<close>

theorem generateSlug_well_formed_idempotent:
  "list_all slug_char (generateSlug name)
   \<and> \<not> starts_with_hyphen (generateSlug name)
   \<and> \<not> ends_with_hyphen (generateSlug name)
   \<and> generateSlug (generateSlug name) = generateSlug name"
proof -
  let ?r = "replace_non_alnum_runs (toLowerCase name)"
  let ?g = "generateSlug name"
  have g: "?g = strip_edge_hyphens ?r" by (simp add: generateSlug_def)
  have chars: "list_all slug_char ?g"
    unfolding g by (rule strip_chars) (rule replace_chars)
  have shape: "\<not> starts_with_hyphen ?g \<and> \<not> ends_with_hyphen ?g \<and> no_double_hyphen ?g"
    unfolding g by (rule strip_shape) (rule replace_no_double)
  have "toLowerCase ?g = ?g" using chars by (rule toLowerCase_fix)
  moreover have "replace_non_alnum_runs ?g = ?g" using chars shape by (simp add: replace_fix)
  moreover have "strip_edge_hyphens ?g = ?g" using shape by (simp add: strip_fix)
  ultimately have "generateSlug ?g = ?g" by (simp add: generateSlug_def [of ?g])
  with chars shape show ?thesis by simp
qed

section \<open>Properties of the issue-key generators\<close>

lemma coalesce_max_eq: "coalesce_max vs = (if vs = [] then 0 else Max (set vs))"
proof (cases vs)
  case Nil
  then show ?thesis by (simp add: coalesce_max_def)
next
  case (Cons v rest)
  have "fold max rest v = Max (set (v # rest))"
    by (rule Max.set_eq_fold [symmetric])
  with Cons show ?thesis by (simp add: coalesce_max_def)
qed

lemma all_values_Inr: "all_values (map Inr vs) = Inr vs"
  by (induction vs) simp_all

lemma all_values_no_ProjectNotFound:
  "\<forall>r \<in> set rs. r \<noteq> Inl ProjectNotFound \<Longrightarrow> all_values rs \<noteq> Inl ProjectNotFound"
  by (induction rs rule: all_values.induct) (auto split: sum.splits)

lemma int4_of_parts_no_ProjectNotFound: "int4_of_parts s neg ds rest \<noteq> Inl ProjectNotFound"
  unfolding int4_of_parts_def by (simp split: if_splits)

lemma cast_integer_no_ProjectNotFound: "cast_integer s \<noteq> Inl ProjectNotFound"
  unfolding cast_integer_def Let_def by (rule int4_of_parts_no_ProjectNotFound)

lemma int4pl_no_ProjectNotFound: "int4pl a b \<noteq> Inl ProjectNotFound"
  by (simp add: int4pl_def)

lemma digits_value_nonneg: "list_all pg_isdigit ds \<Longrightarrow> 0 \<le> digits_value ds"
proof -
  have "list_all pg_isdigit ds \<Longrightarrow> 0 \<le> a \<Longrightarrow>
          0 \<le> foldl (\<lambda>acc c. 10 * acc + (of_char c - 48)) a ds" for a :: int
    by (induction ds arbitrary: a) (simp_all add: pg_isdigit_def Let_def)
  then show "list_all pg_isdigit ds \<Longrightarrow> 0 \<le> digits_value ds"
    by (simp add: digits_value_def)
qed

lemma int4_of_parts_range:
  "int4_of_parts s neg ds rest = Inr v \<Longrightarrow> 0 \<le> digits_value ds \<Longrightarrow>
     - int4_max - 1 \<le> v \<and> v \<le> int4_max"
  unfolding int4_of_parts_def int4_max_def by (auto split: if_splits)

lemma cast_integer_range:
  assumes "cast_integer s = Inr v"
  shows "- int4_max - 1 \<le> v \<and> v \<le> int4_max"
proof -
  let ?s1 = "dropWhile pg_isspace s"
  let ?s2 = "if ?s1 \<noteq> [] \<and> (hd ?s1 = CHR ''-'' \<or> hd ?s1 = CHR ''+'') then tl ?s1 else ?s1"
  have "list_all pg_isdigit (takeWhile pg_isdigit ?s2)"
    by (simp add: list_all_iff) (meson set_takeWhileD)
  then have "0 \<le> digits_value (takeWhile pg_isdigit ?s2)"
    by (rule digits_value_nonneg)
  with assms show ?thesis
    unfolding cast_integer_def Let_def by (rule int4_of_parts_range)
qed

lemma all_values_range:
  "map cast_integer ss = map Inr vs \<Longrightarrow> \<forall>v \<in> set vs. - int4_max - 1 \<le> v \<and> v \<le> int4_max"
proof (induction ss arbitrary: vs)
  case Nil
  then show ?case by simp
next
  case (Cons s ss)
  then obtain v vs' where "vs = v # vs'" "cast_integer s = Inr v" "map cast_integer ss = map Inr vs'"
    by (cases vs) auto
  with Cons.IH cast_integer_range show ?case by auto
qed

lemma coalesce_max_lower:
  "\<forall>v \<in> set vs. - int4_max - 1 \<le> v \<Longrightarrow> - int4_max - 1 \<le> coalesce_max vs"
  by (cases "vs = []") (auto simp: coalesce_max_eq int4_max_def)

lemma generate_issue_key_found:
  assumes "distinct (map p_id (projects db))" "p \<in> set (projects db)" "p_id p = pid"
  shows "generate_issue_key db pid =
     (case all_values (map cast_integer (issue_key_suffixes db (p_key p) pid)) of
        Inl e \<Rightarrow> Inl e
      | Inr vs \<Rightarrow> (case int4pl (coalesce_max vs) 1 of
                    Inl e \<Rightarrow> Inl e
                  | Inr n \<Rightarrow> Inr (p_key p @ ''-'' @ int4out n)))"
proof -
  have "filter (\<lambda>q. p_id q = pid) (projects db) = [p]"
    using filter_key_of_distinct [of p_id "projects db" p] assms by simp
  then show ?thesis by (simp add: generate_issue_key_def Let_def)
qed

lemma generate_issue_key_cases:
  assumes pk: "distinct (map p_id (projects db))"
  shows "(generate_issue_key db pid = Inl ProjectNotFound \<longleftrightarrow> (\<forall>p \<in> set (projects db). p_id p \<noteq> pid))
    \<and> (\<forall>p \<in> set (projects db). p_id p = pid \<longrightarrow>
          (\<forall>vs. map cast_integer (issue_key_suffixes db (p_key p) pid) = map Inr vs
                 \<and> (vs = [] \<or> Max (set vs) < int4_max) \<longrightarrow>
             generate_issue_key db pid =
               Inr (p_key p @ ''-'' @ int4out ((if vs = [] then 0 else Max (set vs)) + 1))))"
proof (intro conjI ballI impI allI)
  show "generate_issue_key db pid = Inl ProjectNotFound \<longleftrightarrow> (\<forall>p \<in> set (projects db). p_id p \<noteq> pid)"
  proof
    assume nf: "generate_issue_key db pid = Inl ProjectNotFound"
    show "\<forall>p \<in> set (projects db). p_id p \<noteq> pid"
    proof
      fix p assume p: "p \<in> set (projects db)"
      show "p_id p \<noteq> pid"
      proof
        assume "p_id p = pid"
        from generate_issue_key_found [OF pk p this] nf
        show False
          using all_values_no_ProjectNotFound
            [of "map cast_integer (issue_key_suffixes db (p_key p) pid)"]
            cast_integer_no_ProjectNotFound int4pl_no_ProjectNotFound
          by (auto split: sum.splits)
      qed
    qed
  next
    assume "\<forall>p \<in> set (projects db). p_id p \<noteq> pid"
    then have "filter (\<lambda>q. p_id q = pid) (projects db) = []"
      by (auto simp: filter_empty_conv)
    then show "generate_issue_key db pid = Inl ProjectNotFound"
      by (simp add: generate_issue_key_def)
  qed
next
  fix p vs
  assume p: "p \<in> set (projects db)" and id: "p_id p = pid"
    and h: "map cast_integer (issue_key_suffixes db (p_key p) pid) = map Inr vs
            \<and> (vs = [] \<or> Max (set vs) < int4_max)"
  let ?m = "if vs = [] then 0 else Max (set vs)"
  from h have range: "\<forall>v \<in> set vs. - int4_max - 1 \<le> v \<and> v \<le> int4_max"
    using all_values_range by blast
  then have "- int4_max - 1 \<le> coalesce_max vs"
    using coalesce_max_lower by auto
  moreover from h have "coalesce_max vs < int4_max"
    by (auto simp: coalesce_max_eq int4_max_def)
  ultimately have "int4pl (coalesce_max vs) 1 = Inr (?m + 1)"
    by (simp add: int4pl_def coalesce_max_eq)
  with h show "generate_issue_key db pid = Inr (p_key p @ ''-'' @ int4out (?m + 1))"
    by (simp add: generate_issue_key_found [OF pk p id] all_values_Inr)
qed


text \<open>
  Claim C1, as amended. With project ids unique in \<open>projects\<close> (the primary key):
  \<open>generate_issue_key\<close> raises 'Project not found' exactly when no project row has the id;
  and for the project row of the id, when the text of every issue key of the project from
  position \<open>LENGTH(key) + 2\<close> on casts to an integer and the largest of those integers is
  below 2147483647, it returns the project's key, a hyphen and one plus that maximum
  (one plus zero when the project has no issue).
\<close>

theorem generate_issue_key_spec:
  assumes pk: "distinct (map p_id (projects db))"
  shows "(generate_issue_key db pid = Inl ProjectNotFound \<longleftrightarrow> (\<forall>p \<in> set (projects db). p_id p \<noteq> pid))
    \<and> (\<forall>p \<in> set (projects db). p_id p = pid \<longrightarrow>
          (\<forall>vs. map cast_integer (issue_key_suffixes db (p_key p) pid) = map Inr vs
                 \<and> (vs = [] \<or> Max (set vs) < int4_max) \<longrightarrow>
             generate_issue_key db pid =
               Inr (p_key p @ ''-'' @ int4out ((if vs = [] then 0 else Max (set vs)) + 1))))"
  using pk by (rule generate_issue_key_cases)

theorem generate_issue_key_spec_witness:
  "distinct (map p_id (projects (empty_db\<lparr>projects := [project_AB],
       issues := [issue_AB 10 ''AB-1'', issue_AB 11 ''AB-2'']\<rparr>)))
   \<and> generate_issue_key (empty_db\<lparr>projects := [project_AB],
       issues := [issue_AB 10 ''AB-1'', issue_AB 11 ''AB-2'']\<rparr>) 1 = Inr ''AB-3''
   \<and> generate_issue_key (empty_db\<lparr>projects := [project_AB],
       issues := [issue_AB 10 ''AB-1'', issue_AB 11 ''AB-2'']\<rparr>) 2 = Inl ProjectNotFound"
proof -
  let ?db = "empty_db\<lparr>projects := [project_AB],
       issues := [issue_AB 10 ''AB-1'', issue_AB 11 ''AB-2'']\<rparr>"
  have pk: "distinct (map p_id (projects ?db))"
    by (simp add: empty_db_def)
  have p: "project_AB \<in> set (projects ?db)" "p_id project_AB = 1" "p_key project_AB = ''AB''"
    by (simp_all add: empty_db_def project_AB_def)
  have c: "map cast_integer (issue_key_suffixes ?db (p_key project_AB) 1) = map Inr [1, 2]"
    by code_simp
  have m: "[1, 2 :: int] = [] \<or> Max (set [1, 2 :: int]) < int4_max"
    by (simp add: int4_max_def)
  have none: "\<forall>q \<in> set (projects ?db). p_id q \<noteq> 2"
    by (simp add: empty_db_def project_AB_def)
  have t: "p_key project_AB @ ''-'' @ int4out ((if [1, 2 :: int] = [] then 0 else Max (set [1, 2])) + 1)
             = ''AB-3''"
    by code_simp
  note found = generate_issue_key_spec
    [OF pk, of 1, THEN conjunct2, rule_format, of project_AB "[1, 2]"]
  have "generate_issue_key ?db 1 =
          Inr (p_key project_AB @ ''-'' @ int4out ((if [1, 2 :: int] = [] then 0 else Max (set [1, 2])) + 1))"
    using p(1) p(2) conjI [OF c m] by (rule found)
  then have one: "generate_issue_key ?db 1 = Inr ''AB-3''"
    by (simp only: t)
  have two: "generate_issue_key ?db 2 = Inl ProjectNotFound"
    using generate_issue_key_spec [OF pk, of 2, THEN conjunct1] none by (rule iffD2)
  from pk one two show ?thesis by (intro conjI)
qed

text \<open>
  The claim as written fails where the maximum is the largest 32-bit integer: the suffix is
  numeric, and the engine's addition raises instead of returning \<open>AB-2147483648\<close>.
\<close>

theorem generate_issue_key_overflow_counterexample:
  "cast_integer (substring_from ''AB-2147483647'' (length ''AB'' + 2)) = Inr 2147483647
   \<and> generate_issue_key (empty_db\<lparr>projects := [project_AB],
         issues := [issue_AB 10 ''AB-2147483647'']\<rparr>) 1 = Inl NumericValueOutOfRange
   \<and> generate_issue_key (empty_db\<lparr>projects := [project_AB],
         issues := [issue_AB 10 ''AB-2147483647'']\<rparr>) 1 \<noteq> Inr (''AB'' @ ''-'' @ int4out (2147483647 + 1))"
  by code_simp

lemma generate_issue_key_not_numeric_example:
  "generate_issue_key (empty_db\<lparr>projects := [project_AB],
         issues := [issue_AB 10 ''AB-x'']\<rparr>) 1 = Inl (InvalidTextRepresentation ''x'')"
  by code_simp

lemma int4out_nonneg: "0 \<le> i \<Longrightarrow> int4out i = decimal i"
  by (simp add: int4out_def)

lemma generators_agree_aux:
  assumes pk: "distinct (map p_id (projects db))"
    and p: "p \<in> set (projects db)" "p_id p = pid"
    and st: "find (\<lambda>q. p_id q = pid) projects_state = Some p"
    and casts: "map cast_integer (issue_key_suffixes db (p_key p) pid) = map Inr vs"
    and seq: "(if vs = [] then 0 else Max (set vs)) = int (length vs)"
    and bound: "int (length vs) < int4_max"
  shows "generate_issue_key db pid = Inr (p_key p @ ''-'' @ decimal (int (length vs) + 1))
       \<and> generateIssueKey projects_state (issues_count db pid) pid
           = Some (p_key p @ ''-'' @ decimal (int (length vs) + 1))"
proof -
  have len: "length vs = length (filter (\<lambda>i. i_project_id i = pid) (issues db))"
    using arg_cong [OF casts, of length] by (simp add: issue_key_suffixes_def)
  have "vs = [] \<or> Max (set vs) < int4_max"
    using seq bound by (cases "vs = []") simp_all
  with generate_issue_key_cases [OF pk, of pid] p casts
  have "generate_issue_key db pid =
          Inr (p_key p @ ''-'' @ int4out ((if vs = [] then 0 else Max (set vs)) + 1))"
    by blast
  also have "(if vs = [] then 0 else Max (set vs)) + 1 = int (length vs) + 1"
    using seq by simp
  also have "int4out (int (length vs) + 1) = decimal (int (length vs) + 1)"
    by (rule int4out_nonneg) simp
  finally have "generate_issue_key db pid = Inr (p_key p @ ''-'' @ decimal (int (length vs) + 1))" .
  moreover have "generateIssueKey projects_state (issues_count db pid) pid
           = Some (p_key p @ ''-'' @ decimal (int (length vs) + 1))"
    using st len by (simp add: generateIssueKey_def issues_count_def)
  ultimately show ?thesis by simp
qed

text \<open>
  Claim C2, as amended. For a project whose row the dialog has loaded, whose issue keys all
  carry an integer after the project key and the hyphen, and where the largest of these
  integers (zero for no issue) equals the number of the project's issues, the key of the
  client-side generator equals the key of the stored procedure: the project key, a hyphen
  and the count plus one.
\<close>

theorem generators_agree_when_max_is_count:
  assumes "distinct (map p_id (projects db))"
    and "p \<in> set (projects db)" "p_id p = pid"
    and "find (\<lambda>q. p_id q = pid) projects_state = Some p"
    and "map cast_integer (issue_key_suffixes db (p_key p) pid) = map Inr vs"
    and "(if vs = [] then 0 else Max (set vs)) = int (length vs)"
    and "int (length vs) < int4_max"
  shows "generate_issue_key db pid = Inr (p_key p @ ''-'' @ decimal (int (length vs) + 1))
       \<and> generateIssueKey projects_state (issues_count db pid) pid
           = Some (p_key p @ ''-'' @ decimal (int (length vs) + 1))"
  using assms by (rule generators_agree_aux)

theorem generators_agree_when_max_is_count_witness:
  "generate_issue_key (empty_db\<lparr>projects := [project_AB],
       issues := [issue_AB 10 ''AB-2'', issue_AB 11 ''AB-1'']\<rparr>) 1 = Inr ''AB-3''
   \<and> generateIssueKey [project_AB]
        (issues_count (empty_db\<lparr>projects := [project_AB],
           issues := [issue_AB 10 ''AB-2'', issue_AB 11 ''AB-1'']\<rparr>) 1) 1 = Some ''AB-3''"
proof -
  let ?db = "empty_db\<lparr>projects := [project_AB],
       issues := [issue_AB 10 ''AB-2'', issue_AB 11 ''AB-1'']\<rparr>"
  have pk: "distinct (map p_id (projects ?db))"
    by (simp add: empty_db_def)
  have p: "project_AB \<in> set (projects ?db)" "p_id project_AB = 1"
    by (simp_all add: empty_db_def project_AB_def)
  have st: "find (\<lambda>q. p_id q = 1) [project_AB] = Some project_AB"
    by (simp add: project_AB_def)
  have c: "map cast_integer (issue_key_suffixes ?db (p_key project_AB) 1) = map Inr [2, 1]"
    by code_simp
  have m: "(if [2, 1 :: int] = [] then 0 else Max (set [2, 1])) = int (length [2, 1 :: int])"
    by simp
  have b: "int (length [2, 1 :: int]) < int4_max"
    by (simp add: int4_max_def)
  have k: "p_key project_AB @ ''-'' @ decimal (int (length [2, 1 :: int]) + 1) = ''AB-3''"
    by code_simp
  from generators_agree_when_max_is_count [OF pk p st c m b] k
  show ?thesis by simp
qed

text \<open>
  The claim as written fails as soon as a number is missing below the maximum: with the
  single issue \<open>AB-5\<close> the stored procedure returns \<open>AB-6\<close> and the dialog \<open>AB-2\<close>.
\<close>

theorem generators_disagree_counterexample:
  "generate_issue_key (empty_db\<lparr>projects := [project_AB], issues := [issue_AB 10 ''AB-5'']\<rparr>) 1
     = Inr ''AB-6''
   \<and> generateIssueKey [project_AB]
        (issues_count (empty_db\<lparr>projects := [project_AB], issues := [issue_AB 10 ''AB-5'']\<rparr>) 1) 1
     = Some ''AB-2''"
  by code_simp

text \<open>Printing and reading back: the keys \<open>KEY-1\<close>, ..., \<open>KEY-n\<close> are a case of the theorem.\<close>

lemma digit_char: "0 \<le> d \<Longrightarrow> d < 10 \<Longrightarrow> of_char (char_of (48 + d :: int)) = (48 + d :: int)"
  by simp

lemma decimal_digits: "0 \<le> n \<Longrightarrow> list_all pg_isdigit (decimal n) \<and> decimal n \<noteq> []"
proof (induction n rule: decimal.induct)
  case (1 n)
  show ?case
  proof (cases "n < 10")
    case True
    have "of_char (char_of (48 + n)) = 48 + n"
      using 1(2) True by (rule digit_char)
    then have "pg_isdigit (char_of (48 + n))"
      using True 1(2) by (simp add: pg_isdigit_def)
    with True show ?thesis
      by (subst (1 2) decimal.simps) simp
  next
    case False
    have "of_char (char_of (48 + n mod 10)) = 48 + n mod 10"
      by (rule digit_char) simp_all
    then have "pg_isdigit (char_of (48 + n mod 10))"
      by (simp add: pg_isdigit_def)
    moreover from False 1 have "list_all pg_isdigit (decimal (n div 10))" by simp
    ultimately show ?thesis using False
      by (subst (1 2) decimal.simps) simp
  qed
qed

lemma digits_value_snoc:
  "digits_value (ds @ [c]) = 10 * digits_value ds + (of_char c - 48)"
  by (simp add: digits_value_def)

lemma digits_value_decimal: "0 \<le> n \<Longrightarrow> digits_value (decimal n) = n"
proof (induction n rule: decimal.induct)
  case (1 n)
  show ?case
  proof (cases "n < 10")
    case True
    have "of_char (char_of (48 + n)) = 48 + n"
      using 1(2) True by (rule digit_char)
    with True show ?thesis
      by (subst decimal.simps) (simp add: digits_value_def)
  next
    case False
    have "of_char (char_of (48 + n mod 10)) = 48 + n mod 10"
      by (rule digit_char) simp_all
    moreover from False 1 have "digits_value (decimal (n div 10)) = n div 10" by simp
    ultimately show ?thesis using False
      by (subst decimal.simps) (simp add: digits_value_snoc)
  qed
qed

lemma digit_not_space_sign:
  "pg_isdigit c \<Longrightarrow> \<not> pg_isspace c \<and> c \<noteq> CHR ''-'' \<and> c \<noteq> CHR ''+''"
  by (auto simp: pg_isdigit_def pg_isspace_def Let_def)

lemma cast_integer_decimal:
  assumes "0 \<le> n" "n < 2147483648"
  shows "cast_integer (decimal n) = Inr n"
proof -
  have all: "list_all pg_isdigit (decimal n)" and ne: "decimal n \<noteq> []"
    using decimal_digits [OF assms(1)] by simp_all
  then obtain c cs where d: "decimal n = c # cs"
    by (cases "decimal n") auto
  with all have c: "pg_isdigit c" by simp
  from all have tw: "takeWhile pg_isdigit (decimal n) = decimal n"
    and dw: "dropWhile pg_isdigit (decimal n) = []"
    by (simp_all add: list_all_iff)
  have s1: "dropWhile pg_isspace (decimal n) = decimal n"
    using d c digit_not_space_sign by simp
  have hd: "hd (decimal n) \<noteq> CHR ''-''" "hd (decimal n) \<noteq> CHR ''+''"
    using d c digit_not_space_sign by simp_all
  have "cast_integer (decimal n) = int4_of_parts (decimal n) False (decimal n) []"
    using ne by (simp add: cast_integer_def Let_def s1 hd tw dw)
  also have "\<dots> = Inr n"
    using assms ne by (simp add: int4_of_parts_def digits_value_decimal)
  finally show ?thesis .
qed

lemma substring_from_key: "substring_from (k @ ''-'' @ d) (length k + 2) = d"
  by (simp add: substring_from_def)

lemma map_substring_from_key:
  "map (\<lambda>s. substring_from s (length k + 2)) (map (\<lambda>j. k @ ''-'' @ f j) js) = map f js"
  by (induction js) (simp_all only: list.map substring_from_key)

lemma generators_agree_on_sequential_keys:
  assumes pk: "distinct (map p_id (projects db))"
    and p: "p \<in> set (projects db)" "p_id p = pid"
    and st: "find (\<lambda>q. p_id q = pid) projects_state = Some p"
    and keys: "map i_issue_key (filter (\<lambda>i. i_project_id i = pid) (issues db))
                 = map (\<lambda>k. p_key p @ ''-'' @ decimal (int k)) ks"
    and ks: "distinct ks" "set ks = {1..n}"
    and bound: "int n < int4_max"
  shows "generate_issue_key db pid = Inr (p_key p @ ''-'' @ decimal (int n + 1))
       \<and> generateIssueKey projects_state (issues_count db pid) pid
           = Some (p_key p @ ''-'' @ decimal (int n + 1))"
proof -
  have len: "length ks = n"
    using ks distinct_card [of ks] by simp
  have "issue_key_suffixes db (p_key p) pid
          = map (\<lambda>s. substring_from s (length (p_key p) + 2))
              (map i_issue_key (filter (\<lambda>i. i_project_id i = pid) (issues db)))"
    by (simp add: issue_key_suffixes_def)
  also have "\<dots> = map (\<lambda>k. decimal (int k)) ks"
    unfolding keys by (rule map_substring_from_key)
  finally have suff: "issue_key_suffixes db (p_key p) pid = map (\<lambda>k. decimal (int k)) ks" .
  have small: "int k < 2147483648" if "k \<in> set ks" for k
    using that ks bound by (simp add: int4_max_def)
  have reads: "cast_integer (decimal (int k)) = Inr (int k)" if "k \<in> set ks" for k
    using small [OF that] by (intro cast_integer_decimal) simp_all
  have casts: "map cast_integer (issue_key_suffixes db (p_key p) pid) = map Inr (map int ks)"
    unfolding suff map_map comp_def by (rule map_cong [OF refl]) (rule reads)
  have mx: "(if map int ks = [] then 0 else Max (set (map int ks))) = int (length (map int ks))"
  proof (cases "n = 0")
    case True
    with ks len show ?thesis by simp
  next
    case False
    have "Max (int ` {1..n}) = int n"
      by (rule Max_eqI) (use False in auto)
    with False ks len show ?thesis by auto
  qed
  from generators_agree_aux [OF pk p st casts mx] bound len
  show ?thesis by simp
qed

section \<open>Properties of the SELECT policies\<close>

text \<open>What \<open>x IN (SELECT ...)\<close> means for a filter and for a join of two tables.\<close>

lemma in_select_where: "y \<in> set [f x. x \<leftarrow> xs, P x] \<longleftrightarrow> (\<exists>x \<in> set xs. P x \<and> y = f x)"
  by (induction xs) auto

lemma in_select_join:
  "y \<in> set [f x. x \<leftarrow> xs, z \<leftarrow> zs, J x z, P z] \<longleftrightarrow>
     (\<exists>x \<in> set xs. y = f x \<and> (\<exists>z \<in> set zs. J x z \<and> P z))"
  by (induction xs) (auto simp: in_select_where)

text \<open>
  The \<open>USING\<close> expressions of the policies of \<open>user_roles\<close>, \<open>invites\<close>, \<open>projects\<close>, \<open>issues\<close>
  and \<open>deployments\<close> hold of a row exactly when \<open>user_roles\<close> records the user's membership
  in the row's organization.
\<close>

lemma user_roles_select_policy_iff:
  "user_roles_select_policy db uid ur = is_member db uid (ur_org_id ur)"
  unfolding user_roles_select_policy_def is_member_def in_select_where by (rule bex_cong) auto

lemma invites_select_policy_iff:
  "invites_select_policy db uid iv = is_member db uid (inv_org_id iv)"
  unfolding invites_select_policy_def is_member_def in_select_where by (rule bex_cong) auto

lemma projects_select_policy_iff:
  "projects_select_policy db uid p = is_member db uid (p_org_id p)"
  unfolding projects_select_policy_def is_member_def in_select_where by (rule bex_cong) auto

lemma issues_select_policy_iff:
  "issues_select_policy db uid i = member_of_project_org db uid (i_project_id i)"
  unfolding issues_select_policy_def is_member_def member_of_project_org_def in_select_join
  by (intro bex_cong refl) auto

lemma deployments_select_policy_iff:
  "deployments_select_policy db uid d = member_of_project_org db uid (dep_project_id d)"
  unfolding deployments_select_policy_def is_member_def member_of_project_org_def in_select_join
  by (intro bex_cong refl) auto

text \<open>
  The expressions of the policies of \<open>sprints\<close> and \<open>boards\<close> read \<open>profiles\<close> instead: they hold
  of a row exactly when the user's profile row names the organization of the row's project.
\<close>

lemma sprints_select_policy_iff:
  "sprints_select_policy db uid s =
     (\<exists>p \<in> set (projects db). p_id p = sp_project_id s \<and>
        (\<exists>pr \<in> set (profiles db). pr_id pr = uid \<and> pr_org_id pr = Some (p_org_id p)))"
  unfolding sprints_select_policy_def in_select_join
  by (intro bex_cong refl) auto

lemma boards_select_policy_iff:
  "boards_select_policy db uid b =
     (\<exists>p \<in> set (projects db). p_id p = b_project_id b \<and>
        (\<exists>pr \<in> set (profiles db). pr_id pr = uid \<and> pr_org_id pr = Some (p_org_id p)))"
  unfolding boards_select_policy_def in_select_join
  by (intro bex_cong refl) auto

text \<open>
  Claim C4 at a state where it fails. User 7 is a member of organization 3 according to
  \<open>user_roles\<close>, and the \<open>USING\<close> expressions of the SELECT policies on \<open>projects\<close> and
  \<open>issues\<close> hold of the project and the issue of that organization; those of \<open>sprints\<close> and
  \<open>boards\<close> do not hold of the sprint and the board of the same project, because they read
  \<open>profiles\<close>, and the profile row of user 7 names organization 4.
\<close>

theorem sprints_boards_policies_ignore_user_roles:
  "is_member two_org_db 7 3
   \<and> member_of_project_org two_org_db 7 1
   \<and> projects_select_policy two_org_db 7 \<lparr>p_id = 1, p_org_id = 3, p_name = ''Alpha'', p_key = ''AB''\<rparr>
   \<and> issues_select_policy two_org_db 7
        \<lparr>i_id = 40, i_project_id = 1, i_issue_key = ''AB-1'', i_reporter_id = 8\<rparr>
   \<and> \<not> sprints_select_policy two_org_db 7 \<lparr>sp_id = 30, sp_project_id = 1, sp_created_by = 8\<rparr>
   \<and> \<not> boards_select_policy two_org_db 7 \<lparr>b_id = 50, b_project_id = 1\<rparr>"
  by (simp add: two_org_db_def empty_db_def is_member_def member_of_project_org_def
      projects_select_policy_def issues_select_policy_def sprints_select_policy_def
      boards_select_policy_def)

section \<open>Properties of accepting an invitation\<close>

lemma rows_of_token:
  assumes "invite_tokens_unique db" "iv \<in> set (invites db)"
  shows "filter (\<lambda>i. V i \<and> inv_token i = inv_token iv \<and> A i) (invites db)
           = (if V iv \<and> A iv then [iv] else [])"
proof -
  have "filter (\<lambda>i. inv_token i = inv_token iv) (invites db) = [iv]"
    using assms filter_key_of_distinct [of inv_token "invites db" iv]
    by (simp add: invite_tokens_unique_def)
  then have "filter (\<lambda>i. V i \<and> A i) (filter (\<lambda>i. inv_token i = inv_token iv) (invites db))
               = (if V iv \<and> A iv then [iv] else [])"
    by simp
  moreover have "filter (\<lambda>i. V i \<and> A i) (filter (\<lambda>i. inv_token i = inv_token iv) (invites db))
               = filter (\<lambda>i. V i \<and> inv_token i = inv_token iv \<and> A i) (invites db)"
    unfolding filter_filter by (rule filter_cong) auto
  ultimately show ?thesis by simp
qed

lemma select_pending_invite_of_token:
  assumes "invite_tokens_unique db" "iv \<in> set (invites db)"
  shows "select_pending_invite be db uid (inv_token iv)
           = (if invite_visible be db uid iv \<and> inv_accepted_at iv = None then Some iv else None)"
  unfolding select_pending_invite_def
  using rows_of_token [OF assms, of "invite_visible be db uid" "\<lambda>i. inv_accepted_at i = None"]
  by simp

text \<open>
  Claim C5, as amended. With tokens unique in \<open>invites\<close>, for an invite that is accepted,
  \<open>acceptInvite\<close> run with that invite's token reports an error and leaves every table as
  it was, whatever the backend answers. The message is 'Invitation not found or already
  accepted' when the token is not empty and a user is signed in, and 'Invalid invitation
  link' otherwise.
\<close>

theorem accepted_invite_is_refused:
  assumes "invite_tokens_unique db" "iv \<in> set (invites db)" "inv_accepted_at iv \<noteq> None"
  shows "acceptInvite be (Some (inv_token iv)) user now accepted_now db
           = (report StatusError
                (if inv_token iv = [] \<or> user = None then ''Invalid invitation link''
                 else ''Invitation not found or already accepted'') initial_view, db)"
proof (cases user)
  case None
  then show ?thesis by (simp add: acceptInvite_def)
next
  case (Some u)
  have "select_pending_invite be db (au_id u) (inv_token iv) = None"
    using assms(3) by (simp add: select_pending_invite_of_token [OF assms(1,2)])
  with Some show ?thesis
    by (simp add: acceptInvite_def)
qed

theorem accepted_invite_is_refused_witness:
  "invite_of 60 ''tok-accepted'' 5000 (Some 900) \<in> set (invites invites_db)
   \<and> inv_accepted_at (invite_of 60 ''tok-accepted'' 5000 (Some 900)) = Some 900
   \<and> acceptInvite open_backend (Some ''tok-accepted'') (Some user_9) 2000 2001 invites_db
       = (report StatusError ''Invitation not found or already accepted'' initial_view, invites_db)"
proof -
  let ?iv = "invite_of 60 ''tok-accepted'' 5000 (Some 900)"
  have u: "invite_tokens_unique invites_db" by code_simp
  have m: "?iv \<in> set (invites invites_db)" by (simp add: invites_db_def)
  have a: "inv_accepted_at ?iv \<noteq> None" by (simp add: invite_of_def)
  have k: "inv_token ?iv = ''tok-accepted''" by (simp add: invite_of_def)
  from accepted_invite_is_refused [OF u m a, of open_backend "Some user_9" 2000 2001]
  have "acceptInvite open_backend (Some ''tok-accepted'') (Some user_9) 2000 2001 invites_db
       = (report StatusError ''Invitation not found or already accepted'' initial_view, invites_db)"
    by (simp add: k)
  with m show ?thesis by (simp add: invite_of_def)
qed

text \<open>
  The claim as written fails for the message: for an accepted invite whose token is the
  empty string (the column is \<open>TEXT NOT NULL UNIQUE\<close>, which admits it), the page tests
  \<open>!token\<close> first and reports 'Invalid invitation link'.
\<close>

theorem accepted_invite_blank_token_counterexample:
  "invite_tokens_unique (blank_token_db (Some 900))
   \<and> invite_of 64 [] 1000 (Some 900) \<in> set (invites (blank_token_db (Some 900)))
   \<and> inv_accepted_at (invite_of 64 [] 1000 (Some 900)) = Some 900
   \<and> acceptInvite open_backend (Some (inv_token (invite_of 64 [] 1000 (Some 900)))) (Some user_9)
        900 901 (blank_token_db (Some 900))
       = (report StatusError ''Invalid invitation link'' initial_view, blank_token_db (Some 900))
   \<and> av_message (fst (acceptInvite open_backend
        (Some (inv_token (invite_of 64 [] 1000 (Some 900)))) (Some user_9) 900 901
        (blank_token_db (Some 900)))) \<noteq> ''Invitation not found or already accepted''"
  by code_simp

lemma expired_invite_unchanged:
  assumes "invite_tokens_unique db" "iv \<in> set (invites db)" "inv_expires_at iv < now"
  shows "snd (acceptInvite be (Some (inv_token iv)) user now accepted_now db) = db"
proof (cases user)
  case None
  then show ?thesis by (simp add: acceptInvite_def)
next
  case (Some u)
  then show ?thesis
    using assms(3)
    by (simp add: acceptInvite_def select_pending_invite_of_token [OF assms(1,2)])
qed

text \<open>
  Claim C6, as amended. With tokens unique in \<open>invites\<close>, for an invite whose \<open>expires_at\<close>
  is earlier than the current time, \<open>acceptInvite\<close> run with that token leaves every table
  as it was; and when the invite is not accepted, the signed-in user's query can see it and
  the token is not empty, it reports the invitation as expired.
\<close>

theorem expired_invite_is_refused:
  assumes "invite_tokens_unique db" "iv \<in> set (invites db)" "inv_expires_at iv < now"
  shows "snd (acceptInvite be (Some (inv_token iv)) user now accepted_now db) = db
    \<and> (inv_accepted_at iv = None \<and> invite_visible be db (au_id u) iv \<and> inv_token iv \<noteq> [] \<longrightarrow>
         acceptInvite be (Some (inv_token iv)) (Some u) now accepted_now db
           = (report StatusExpired ''This invitation has expired'' initial_view, db))"
proof (intro conjI impI)
  show "snd (acceptInvite be (Some (inv_token iv)) user now accepted_now db) = db"
    using assms by (rule expired_invite_unchanged)
next
  assume "inv_accepted_at iv = None \<and> invite_visible be db (au_id u) iv \<and> inv_token iv \<noteq> []"
  then show "acceptInvite be (Some (inv_token iv)) (Some u) now accepted_now db
           = (report StatusExpired ''This invitation has expired'' initial_view, db)"
    using assms(3)
    by (simp add: acceptInvite_def select_pending_invite_of_token [OF assms(1,2)])
qed

text \<open>
  User 9, to whom invite 61 was sent and who is no member of any organization, opens its
  link after it expired, on a backend that returns the row to them.
\<close>

theorem expired_invite_is_refused_witness:
  "\<not> is_member invites_db 9 3
   \<and> inv_accepted_at (invite_of 61 ''tok-expired'' 1000 None) = None
   \<and> acceptInvite open_backend (Some ''tok-expired'') (Some user_9) 2000 2001 invites_db
       = (report StatusExpired ''This invitation has expired'' initial_view, invites_db)"
proof -
  let ?iv = "invite_of 61 ''tok-expired'' 1000 None"
  have u: "invite_tokens_unique invites_db" by code_simp
  have m: "?iv \<in> set (invites invites_db)" by (simp add: invites_db_def)
  have e: "inv_expires_at ?iv < 2000" by (simp add: invite_of_def)
  have h: "inv_accepted_at ?iv = None \<and> invite_visible open_backend invites_db (au_id user_9) ?iv
            \<and> inv_token ?iv \<noteq> []"
    by code_simp
  have k: "inv_token ?iv = ''tok-expired''" by (simp add: invite_of_def)
  have n: "\<not> is_member invites_db 9 3" by code_simp
  from expired_invite_is_refused [OF u m e, of open_backend "Some user_9" 2001 user_9,
      THEN conjunct2, rule_format, OF h]
  have "acceptInvite open_backend (Some ''tok-expired'') (Some user_9) 2000 2001 invites_db
       = (report StatusExpired ''This invitation has expired'' initial_view, invites_db)"
    by (simp only: k)
  with n show ?thesis by (simp add: invite_of_def)
qed

text \<open>
  The claim as written fails for invites that are expired and not accepted. Invite 61 is
  one: the \<open>USING\<close> expression of the SELECT policy on \<open>invites\<close> admits members of the
  inviting organization only, user 9 is not one, the query returns no row, and the page
  reports 'Invitation not found or already accepted' with status \<open>error\<close>. Invite 64,
  whose token is the empty string, is another: the page reports 'Invalid invitation link'
  before it asks the backend.
\<close>

theorem expired_pending_invite_counterexample:
  "invite_of 61 ''tok-expired'' 1000 None \<in> set (invites invites_db)
   \<and> inv_accepted_at (invite_of 61 ''tok-expired'' 1000 None) = None
   \<and> inv_expires_at (invite_of 61 ''tok-expired'' 1000 None) < 2000
   \<and> \<not> invite_visible policy_backend invites_db (au_id user_9)
         (invite_of 61 ''tok-expired'' 1000 None)
   \<and> acceptInvite policy_backend (Some (inv_token (invite_of 61 ''tok-expired'' 1000 None)))
        (Some user_9) 2000 2001 invites_db
       = (report StatusError ''Invitation not found or already accepted'' initial_view, invites_db)
   \<and> invite_of 64 [] 1000 None \<in> set (invites (blank_token_db None))
   \<and> inv_accepted_at (invite_of 64 [] 1000 None) = None
   \<and> inv_expires_at (invite_of 64 [] 1000 None) < 2000
   \<and> acceptInvite open_backend (Some (inv_token (invite_of 64 [] 1000 None))) (Some user_9)
        2000 2001 (blank_token_db None)
       = (report StatusError ''Invalid invitation link'' initial_view, blank_token_db None)
   \<and> StatusError \<noteq> StatusExpired"
  by code_simp

text \<open>
  An invite that is neither accepted nor expired, opened by the user it was sent to on a
  backend that returns the row to them: the page reports success and the invite is marked
  accepted, the profile moved to organization 3 and a membership recorded.
\<close>

lemma accept_open_invite_example:
  "av_status (fst (acceptInvite open_backend (Some ''tok-open'') (Some user_9) 2000 2001 invites_db))
     = StatusSuccess
   \<and> map inv_accepted_at (invites (snd (acceptInvite open_backend (Some ''tok-open'')
        (Some user_9) 2000 2001 invites_db))) = [Some 900, None, Some 900, Some 2001]
   \<and> map pr_org_id (profiles (snd (acceptInvite open_backend (Some ''tok-open'')
        (Some user_9) 2000 2001 invites_db))) = [Some 3]
   \<and> is_member (snd (acceptInvite open_backend (Some ''tok-open'')
        (Some user_9) 2000 2001 invites_db)) 9 3"
  by code_simp

section \<open>Properties of the dialogs and loaders\<close>

lemma app_role_of_cases: "app_role_of r \<in> {Admin, Manager, Contributor, Viewer}"
  by (cases r) simp_all

lemma length_invite_rows [simp]:
  "length (invite_rows orgId role uid uuids clock k es) = length es"
  by (induction es arbitrary: k) simp_all

lemma nth_invite_rows:
  "i < length es \<Longrightarrow>
     invite_rows orgId role uid uuids clock k es ! i =
       \<lparr>ni_org_id = orgId, ni_email = toLowerCase (trim (es ! i)), ni_role = app_role_of role,
        ni_token = uuids (k + i), ni_expires_at = clock (k + i) + seven_days_ms,
        ni_created_by = uid\<rparr>"
proof (induction es arbitrary: k i)
  case Nil
  then show ?case by simp
next
  case (Cons e es)
  show ?case
  proof (cases i)
    case 0
    then show ?thesis by simp
  next
    case (Suc j)
    with Cons.prems have "j < length es" by simp
    from Cons.IH [OF this, of "Suc k"] Suc show ?thesis by simp
  qed
qed

lemma is_rows_handleSubmit:
  "is_rows (invite_handleSubmit emails role orgId user uuids clock insert_rows) = [] \<or>
   (\<exists>u. user = Some u \<and>
      is_rows (invite_handleSubmit emails role orgId user uuids clock insert_rows)
        = invite_rows orgId role (au_id u) uuids clock 0 (valid_emails emails))"
  by (auto simp: invite_handleSubmit_def Let_def split: option.splits)

lemma trim_tail:
  "dropWhile js_whitespace s
     = trim s @ rev (takeWhile js_whitespace (rev (dropWhile js_whitespace s)))"
proof -
  let ?r = "dropWhile js_whitespace s"
  have "trim s @ rev (takeWhile js_whitespace (rev ?r))
          = rev (takeWhile js_whitespace (rev ?r) @ dropWhile js_whitespace (rev ?r))"
    by (simp only: trim_def rev_append)
  also have "\<dots> = rev (rev ?r)" by (simp only: takeWhile_dropWhile_id)
  finally show ?thesis by simp
qed

lemma trim_shape:
  "s = takeWhile js_whitespace s @ trim s
         @ rev (takeWhile js_whitespace (rev (dropWhile js_whitespace s)))"
proof -
  have "s = takeWhile js_whitespace s @ dropWhile js_whitespace s" by simp
  also have "dropWhile js_whitespace s
      = trim s @ rev (takeWhile js_whitespace (rev (dropWhile js_whitespace s)))"
    by (rule trim_tail)
  finally show ?thesis .
qed

lemma trim_ends:
  assumes "trim s \<noteq> []"
  shows "\<not> js_whitespace (hd (trim s))" and "\<not> js_whitespace (last (trim s))"
proof -
  let ?r = "dropWhile js_whitespace s"
  let ?d = "dropWhile js_whitespace (rev ?r)"
  from assms have d: "?d \<noteq> []" by (simp add: trim_def)
  have r: "?r \<noteq> []"
  proof
    assume "?r = []"
    then have "?d = []" by (simp only: rev.simps dropWhile.simps)
    with d show False ..
  qed
  have "last (trim s) = hd ?d" using d by (simp add: trim_def last_rev)
  with d show "\<not> js_whitespace (last (trim s))" by (simp add: hd_dropWhile)
  from assms have "hd ?r = hd (trim s)"
    by (subst trim_tail) (rule hd_append2)
  with r show "\<not> js_whitespace (hd (trim s))" by (metis hd_dropWhile)
qed

lemma trim_spec:
  "\<exists>pre post. s = pre @ trim s @ post \<and> list_all js_whitespace pre \<and> list_all js_whitespace post
     \<and> (trim s \<noteq> [] \<longrightarrow> \<not> js_whitespace (hd (trim s)) \<and> \<not> js_whitespace (last (trim s)))"
proof (intro exI conjI)
  show "s = takeWhile js_whitespace s @ trim s
          @ rev (takeWhile js_whitespace (rev (dropWhile js_whitespace s)))"
    by (rule trim_shape)
  show "list_all js_whitespace (takeWhile js_whitespace s)"
    by (simp add: list_all_iff) (metis set_takeWhileD)
  show "list_all js_whitespace (rev (takeWhile js_whitespace (rev (dropWhile js_whitespace s))))"
    by (simp add: list_all_iff) (metis set_takeWhileD)
  show "trim s \<noteq> [] \<longrightarrow> \<not> js_whitespace (hd (trim s)) \<and> \<not> js_whitespace (last (trim s))"
    using trim_ends by blast
qed

lemma trim_unique:
  assumes "s = pre @ mid @ post" "list_all js_whitespace pre" "list_all js_whitespace post"
    and "mid \<noteq> []" "\<not> js_whitespace (hd mid)" "\<not> js_whitespace (last mid)"
  shows "trim s = mid"
proof -
  have "dropWhile js_whitespace (pre @ mid @ post) = dropWhile js_whitespace (mid @ post)"
    by (rule dropWhile_append2) (use assms(2) in \<open>simp add: list_all_iff\<close>)
  also have "\<dots> = mid @ post"
    using assms(4,5) by (cases mid) simp_all
  finally have a: "dropWhile js_whitespace s = mid @ post" by (simp only: assms(1))
  have "dropWhile js_whitespace (rev post @ rev mid) = dropWhile js_whitespace (rev mid)"
    by (rule dropWhile_append2) (use assms(3) in \<open>simp add: list_all_iff\<close>)
  also have "\<dots> = rev mid"
    using assms(4,6) by (cases mid rule: rev_cases) simp_all
  finally show ?thesis by (simp add: trim_def a)
qed

lemma toLowerCase_char_idem: "toLowerCase_char (toLowerCase_char c) = toLowerCase_char c"
  by (simp add: toLowerCase_char_def Let_def)

lemma toLowerCase_idem: "toLowerCase (toLowerCase s) = toLowerCase s"
  by (simp add: toLowerCase_def toLowerCase_char_idem)

text \<open>
  Claim C9. Every row that \<open>handleSubmit\<close> of CreateInviteDialog hands to the backend has
  a role among admin, manager, contributor and viewer (never owner). It is the row of one
  of the submitted addresses that pass the dialog's check: that address is a run of white
  space, then a text \<open>mid\<close> that is not empty and neither starts nor ends with white space,
  then a run of white space, and the row's email is \<open>mid\<close> with each character put in lower
  case, so that lower-casing it again changes nothing. Its \<open>expires_at\<close> is the clock
  reading taken when the row was built plus seven days (604800000 milliseconds).
\<close>

theorem invite_rows_of_handleSubmit:
  assumes "row \<in> set (is_rows (invite_handleSubmit emails role orgId user uuids clock insert_rows))"
  shows "ni_role row \<in> {Admin, Manager, Contributor, Viewer} \<and> ni_role row \<noteq> Owner
    \<and> (\<exists>i < length (valid_emails emails). \<exists>pre mid post.
          valid_emails emails ! i \<in> set emails
          \<and> valid_emails emails ! i = pre @ mid @ post
          \<and> list_all js_whitespace pre \<and> list_all js_whitespace post
          \<and> mid \<noteq> [] \<and> \<not> js_whitespace (hd mid) \<and> \<not> js_whitespace (last mid)
          \<and> ni_email row = map toLowerCase_char mid
          \<and> map toLowerCase_char (ni_email row) = ni_email row
          \<and> ni_expires_at row = clock i + 604800000)"
proof -
  let ?rows = "is_rows (invite_handleSubmit emails role orgId user uuids clock insert_rows)"
  let ?valid = "valid_emails emails"
  from assms have "?rows \<noteq> []" by auto
  with is_rows_handleSubmit [of emails role orgId user uuids clock insert_rows]
  obtain u :: auth_user where rows: "?rows = invite_rows orgId role (au_id u) uuids clock 0 ?valid"
    by auto
  from assms obtain i where i: "i < length ?rows" "row = ?rows ! i"
    by (auto simp: in_set_conv_nth)
  with rows have len: "i < length ?valid" by simp
  from nth_invite_rows [OF len, of orgId role "au_id u" uuids clock 0] rows i(2)
  have row: "row = \<lparr>ni_org_id = orgId, ni_email = toLowerCase (trim (?valid ! i)),
                    ni_role = app_role_of role, ni_token = uuids i,
                    ni_expires_at = clock i + seven_days_ms, ni_created_by = au_id u\<rparr>"
    by simp
  have "?valid ! i \<in> set ?valid" using len by simp
  then have mem: "?valid ! i \<in> set emails" and ne: "trim (?valid ! i) \<noteq> []"
    by (simp_all add: valid_emails_def)
  from trim_spec [of "?valid ! i"] ne
  obtain pre post where shape: "?valid ! i = pre @ trim (?valid ! i) @ post"
    "list_all js_whitespace pre" "list_all js_whitespace post"
    "\<not> js_whitespace (hd (trim (?valid ! i)))" "\<not> js_whitespace (last (trim (?valid ! i)))"
    by blast
  have role: "ni_role row \<in> {Admin, Manager, Contributor, Viewer}"
    using row app_role_of_cases [of role] by simp
  then have owner: "ni_role row \<noteq> Owner" by auto
  have email: "ni_email row = map toLowerCase_char (trim (?valid ! i))"
    using row by (simp add: toLowerCase_def)
  have fixed: "map toLowerCase_char (ni_email row) = ni_email row"
    using toLowerCase_idem [of "trim (?valid ! i)"] by (simp add: email toLowerCase_def)
  have expires: "ni_expires_at row = clock i + 604800000"
    using row by (simp add: seven_days_ms_def)
  from len mem shape ne email fixed expires
  have "\<exists>i < length ?valid. \<exists>pre mid post.
          ?valid ! i \<in> set emails
          \<and> ?valid ! i = pre @ mid @ post
          \<and> list_all js_whitespace pre \<and> list_all js_whitespace post
          \<and> mid \<noteq> [] \<and> \<not> js_whitespace (hd mid) \<and> \<not> js_whitespace (last mid)
          \<and> ni_email row = map toLowerCase_char mid
          \<and> map toLowerCase_char (ni_email row) = ni_email row
          \<and> ni_expires_at row = clock i + 604800000"
    by blast
  with role owner show ?thesis by blast
qed

text \<open>
  Three addresses are submitted with the role manager; the second has no \<open>@\<close> and is left
  out. The first row is that of \<open>Ann@Example.ORG\<close>, written with two blanks before it and
  one after it.
\<close>

theorem invite_rows_of_handleSubmit_witness:
  "is_rows (invite_handleSubmit [''  Ann@Example.ORG '', ''nobody'', ''Bob@x.io'']
          InviteManager 3 (Some user_7) (\<lambda>k. if k = 0 then ''t0'' else ''t1'')
          (\<lambda>k. 1000 + int k) (\<lambda>_. None))
     = [\<lparr>ni_org_id = 3, ni_email = ''ann@example.org'', ni_role = Manager, ni_token = ''t0'',
         ni_expires_at = 604801000, ni_created_by = 7\<rparr>,
        \<lparr>ni_org_id = 3, ni_email = ''bob@x.io'', ni_role = Manager, ni_token = ''t1'',
         ni_expires_at = 604801001, ni_created_by = 7\<rparr>]
   \<and> (\<exists>i < length (valid_emails [''  Ann@Example.ORG '', ''nobody'', ''Bob@x.io'']).
       \<exists>pre mid post.
         valid_emails [''  Ann@Example.ORG '', ''nobody'', ''Bob@x.io''] ! i
           \<in> set [''  Ann@Example.ORG '', ''nobody'', ''Bob@x.io'']
         \<and> valid_emails [''  Ann@Example.ORG '', ''nobody'', ''Bob@x.io''] ! i = pre @ mid @ post
         \<and> list_all js_whitespace pre \<and> list_all js_whitespace post
         \<and> mid \<noteq> [] \<and> \<not> js_whitespace (hd mid) \<and> \<not> js_whitespace (last mid)
         \<and> ''ann@example.org'' = map toLowerCase_char mid
         \<and> map toLowerCase_char ''ann@example.org'' = ''ann@example.org''
         \<and> (604801000 :: int) = 1000 + int i + 604800000)
   \<and> valid_emails [''  Ann@Example.ORG '', ''nobody'', ''Bob@x.io'']
        = [''  Ann@Example.ORG '', ''Bob@x.io'']
   \<and> trim ''  Ann@Example.ORG '' = ''Ann@Example.ORG''"
proof -
  let ?row = "\<lparr>ni_org_id = 3, ni_email = ''ann@example.org'', ni_role = Manager, ni_token = ''t0'',
      ni_expires_at = 604801000, ni_created_by = 7\<rparr>"
  let ?emails = "[''  Ann@Example.ORG '', ''nobody'', ''Bob@x.io'']"
  have rows: "is_rows (invite_handleSubmit ?emails
          InviteManager 3 (Some user_7) (\<lambda>k. if k = 0 then ''t0'' else ''t1'')
          (\<lambda>k. 1000 + int k) (\<lambda>_. None))
      = [?row, \<lparr>ni_org_id = 3, ni_email = ''bob@x.io'', ni_role = Manager, ni_token = ''t1'',
          ni_expires_at = 604801001, ni_created_by = 7\<rparr>]"
    by code_simp
  have m: "?row \<in> set (is_rows (invite_handleSubmit ?emails
          InviteManager 3 (Some user_7) (\<lambda>k. if k = 0 then ''t0'' else ''t1'')
          (\<lambda>k. 1000 + int k) (\<lambda>_. None)))"
    by (simp only: rows list.set insertI1)
  note t = invite_rows_of_handleSubmit [OF m, THEN conjunct2, THEN conjunct2,
      unfolded new_invite.select_convs]
  have v: "valid_emails ?emails = [''  Ann@Example.ORG '', ''Bob@x.io'']" by code_simp
  have w: "trim ''  Ann@Example.ORG '' = ''Ann@Example.ORG''" by code_simp
  show ?thesis by (rule conjI [OF rows conjI [OF t conjI [OF v w]]])
qed

text \<open>
  Claim C8, as amended. An error returned by the backend is caught at the call site and
  shown as one destructive toast titled 'Error' at these call sites: the insert of
  CreateInviteDialog, the insert of CreateIssueDialog, the insert into \<open>organizations\<close> and
  the update of the profile in CreateOrgDialog, the insert of CreateProjectDialog, the
  insert of CreateSprintDialog and the update of \<open>IssueDetailSheet.updateIssueField\<close>, where
  the toast carries the error's message, or the call site's fallback text when the message
  is empty; and the query of \<open>IssueDetailSheet.loadIssue\<close>, where it carries the fixed text
  'Failed to load issue details'. In the invite and the issue dialog every submit that
  stores nothing ends in exactly one such toast (for the issue dialog: once a user and a
  project are present). \<open>Board.loadIssues\<close> catches the error of its query, writes it with
  \<open>console.error\<close> and never shows a toast. \<open>Dashboard.loadStats\<close> never reads the error of
  an answer: it stores \<open>count || 0\<close> of each of its three answers, so 0 for an answer that
  carries an error and no count, and shows nothing; what one of the three queries throws is
  written with \<open>console.error\<close> and leaves the stored numbers as they were; it never shows
  a toast.
\<close>

theorem backend_errors_at_call_sites:
  "(\<not> is_stored (invite_handleSubmit emails role orgId user uuids clock insert_rows) \<longrightarrow>
      (\<exists>d. is_events (invite_handleSubmit emails role orgId user uuids clock insert_rows)
             = [Toast ''Error'' d True]))
   \<and> (valid_emails emails \<noteq> [] \<and>
        insert_rows (invite_rows orgId role (au_id u) uuids clock 0 (valid_emails emails)) = Some msg \<longrightarrow>
        is_events (invite_handleSubmit emails role orgId (Some u) uuids clock insert_rows)
          = [Toast ''Error'' (message_or msg ''Failed to send invitations'') True])
   \<and> (\<not> iu_stored (issue_handleSubmit (Some u) (Some pid) projects_state count title insert_row) \<longrightarrow>
        (\<exists>d. iu_events (issue_handleSubmit (Some u) (Some pid) projects_state count title insert_row)
               = [Toast ''Error'' d True]))
   \<and> (generateIssueKey projects_state count pid = Some k \<and>
        insert_row \<lparr>nw_project_id = pid, nw_issue_key = k, nw_title = title,
                     nw_reporter_id = au_id u\<rparr> = Some msg2 \<longrightarrow>
        iu_events (issue_handleSubmit (Some u) (Some pid) projects_state count title insert_row)
          = [Toast ''Error'' (message_or msg2 ''Failed to create issue'') True])
   \<and> org_handleSubmit (Some u) (Inl err) update_profile
        = [Toast ''Error'' (message_or err ''Failed to create organization'') True]
   \<and> org_handleSubmit (Some u) (Inr org_id) (Some err)
        = [Toast ''Error'' (message_or err ''Failed to create organization'') True]
   \<and> project_handleSubmit (Some u) (Some oid) (Some err)
        = [Toast ''Error'' (message_or err ''Failed to create project'') True]
   \<and> sprint_handleSubmit (Some u) (Some pid) type (Some err)
        = [Toast ''Error'' (message_or err ''Failed to create sprint'') True]
   \<and> updateIssueField (Some iid) field (Some err)
        = [Toast ''Error'' (message_or err ''Failed to update issue'') True]
   \<and> loadIssue (Some iid) (Inl err) shown
        = (shown, [Toast ''Error'' ''Failed to load issue details'' True])
   \<and> loadIssues (Some u) (Inl err) bst
        = (bst\<lparr>bs_loading := False\<rparr>, [ConsoleError ''Error loading issues:'' err])
   \<and> \<not> list_ex is_toast (snd (loadIssues user response bst))
   \<and> loadStats (Some u) (Answers e1 c1) (Answers e2 c2) (Answers e3 c3) sst
        = (\<lparr>st_projects = count_or_0 c1, st_activeIssues = count_or_0 c2,
            st_completedIssues = count_or_0 c3\<rparr>, [])
   \<and> loadStats (Some u) (Answers (Some err) None) (Answers (Some err) None)
        (Answers (Some err) None) sst
        = (\<lparr>st_projects = 0, st_activeIssues = 0, st_completedIssues = 0\<rparr>, [])
   \<and> loadStats (Some u) (Throws err) q2 q3 sst = (sst, [ConsoleError ''Error loading stats:'' err])
   \<and> loadStats (Some u) (Answers e1 c1) (Throws err) q3 sst
        = (sst, [ConsoleError ''Error loading stats:'' err])
   \<and> loadStats (Some u) (Answers e1 c1) (Answers e2 c2) (Throws err) sst
        = (sst, [ConsoleError ''Error loading stats:'' err])
   \<and> \<not> list_ex is_toast (snd (loadStats user q1 q2 q3 sst))"
proof (intro conjI impI)
  assume "\<not> is_stored (invite_handleSubmit emails role orgId user uuids clock insert_rows)"
  then show "\<exists>d. is_events (invite_handleSubmit emails role orgId user uuids clock insert_rows)
             = [Toast ''Error'' d True]"
    by (auto simp: invite_handleSubmit_def Let_def split: option.splits if_splits)
next
  assume "valid_emails emails \<noteq> [] \<and>
        insert_rows (invite_rows orgId role (au_id u) uuids clock 0 (valid_emails emails)) = Some msg"
  then show "is_events (invite_handleSubmit emails role orgId (Some u) uuids clock insert_rows)
          = [Toast ''Error'' (message_or msg ''Failed to send invitations'') True]"
    by (simp add: invite_handleSubmit_def Let_def)
next
  assume "\<not> iu_stored (issue_handleSubmit (Some u) (Some pid) projects_state count title insert_row)"
  then show "\<exists>d. iu_events (issue_handleSubmit (Some u) (Some pid) projects_state count title insert_row)
               = [Toast ''Error'' d True]"
    by (auto simp: issue_handleSubmit_def Let_def split: option.splits)
next
  assume "generateIssueKey projects_state count pid = Some k \<and>
        insert_row \<lparr>nw_project_id = pid, nw_issue_key = k, nw_title = title,
                     nw_reporter_id = au_id u\<rparr> = Some msg2"
  then show "iu_events (issue_handleSubmit (Some u) (Some pid) projects_state count title insert_row)
          = [Toast ''Error'' (message_or msg2 ''Failed to create issue'') True]"
    by (simp add: issue_handleSubmit_def Let_def)
next
  show "org_handleSubmit (Some u) (Inl err) update_profile
        = [Toast ''Error'' (message_or err ''Failed to create organization'') True]"
    by (simp add: org_handleSubmit_def)
next
  show "org_handleSubmit (Some u) (Inr org_id) (Some err)
        = [Toast ''Error'' (message_or err ''Failed to create organization'') True]"
    by (simp add: org_handleSubmit_def)
next
  show "project_handleSubmit (Some u) (Some oid) (Some err)
        = [Toast ''Error'' (message_or err ''Failed to create project'') True]"
    by (simp add: project_handleSubmit_def)
next
  show "sprint_handleSubmit (Some u) (Some pid) type (Some err)
        = [Toast ''Error'' (message_or err ''Failed to create sprint'') True]"
    by (simp add: sprint_handleSubmit_def)
next
  show "updateIssueField (Some iid) field (Some err)
        = [Toast ''Error'' (message_or err ''Failed to update issue'') True]"
    by (simp add: updateIssueField_def)
next
  show "loadIssue (Some iid) (Inl err) shown
        = (shown, [Toast ''Error'' ''Failed to load issue details'' True])"
    by (simp add: loadIssue_def)
next
  show "loadIssues (Some u) (Inl err) bst
        = (bst\<lparr>bs_loading := False\<rparr>, [ConsoleError ''Error loading issues:'' err])"
    by (simp add: loadIssues_def)
next
  show "\<not> list_ex is_toast (snd (loadIssues user response bst))"
    by (simp add: loadIssues_def split: option.splits sum.splits)
next
  show "loadStats (Some u) (Answers e1 c1) (Answers e2 c2) (Answers e3 c3) sst
        = (\<lparr>st_projects = count_or_0 c1, st_activeIssues = count_or_0 c2,
            st_completedIssues = count_or_0 c3\<rparr>, [])"
    by (simp add: loadStats_def)
next
  show "loadStats (Some u) (Answers (Some err) None) (Answers (Some err) None)
        (Answers (Some err) None) sst
        = (\<lparr>st_projects = 0, st_activeIssues = 0, st_completedIssues = 0\<rparr>, [])"
    by (simp add: loadStats_def)
next
  show "loadStats (Some u) (Throws err) q2 q3 sst = (sst, [ConsoleError ''Error loading stats:'' err])"
    by (simp add: loadStats_def)
next
  show "loadStats (Some u) (Answers e1 c1) (Throws err) q3 sst
        = (sst, [ConsoleError ''Error loading stats:'' err])"
    by (simp add: loadStats_def)
next
  show "loadStats (Some u) (Answers e1 c1) (Answers e2 c2) (Throws err) sst
        = (sst, [ConsoleError ''Error loading stats:'' err])"
    by (simp add: loadStats_def)
next
  show "\<not> list_ex is_toast (snd (loadStats user q1 q2 q3 sst))"
    by (simp add: loadStats_def split: option.splits count_answer.splits)
qed

text \<open>
  The backend refuses the invite of \<open>ann@example.org\<close> under row-level security and the
  issue \<open>AB-3\<close> as a duplicate, and refuses the insert of an organization without a
  message.
\<close>

theorem backend_errors_at_call_sites_witness:
  "\<not> is_stored (invite_handleSubmit [''ann@example.org''] InviteViewer 3 (Some user_7)
      (\<lambda>k. ''t'') (\<lambda>k. 1000) (\<lambda>rows. Some ''new row violates row-level security policy''))
   \<and> is_events (invite_handleSubmit [''ann@example.org''] InviteViewer 3 (Some user_7)
      (\<lambda>k. ''t'') (\<lambda>k. 1000) (\<lambda>rows. Some ''new row violates row-level security policy''))
     = [Toast ''Error'' ''new row violates row-level security policy'' True]
   \<and> \<not> iu_stored (issue_handleSubmit (Some user_7) (Some 1) [project_AB] (Some 2) ''Fix it''
        (\<lambda>row. Some ''duplicate key value violates unique constraint''))
   \<and> iu_events (issue_handleSubmit (Some user_7) (Some 1) [project_AB] (Some 2) ''Fix it''
        (\<lambda>row. Some ''duplicate key value violates unique constraint''))
     = [Toast ''Error'' ''duplicate key value violates unique constraint'' True]
   \<and> org_handleSubmit (Some user_7) (Inl []) None
     = [Toast ''Error'' ''Failed to create organization'' True]"
proof -
  have v: "valid_emails [''ann@example.org''] \<noteq> [] \<and>
      (\<lambda>rows. Some ''new row violates row-level security policy'')
        (invite_rows 3 InviteViewer (au_id user_7) (\<lambda>k. ''t'') (\<lambda>k. 1000) 0
           (valid_emails [''ann@example.org'']))
        = Some ''new row violates row-level security policy''"
    by code_simp
  have g: "generateIssueKey [project_AB] (Some 2) 1 = Some ''AB-3'' \<and>
      (\<lambda>row. Some ''duplicate key value violates unique constraint'')
        \<lparr>nw_project_id = 1, nw_issue_key = ''AB-3'', nw_title = ''Fix it'',
         nw_reporter_id = au_id user_7\<rparr>
        = Some ''duplicate key value violates unique constraint''"
    by code_simp
  have n1: "\<not> is_stored (invite_handleSubmit [''ann@example.org''] InviteViewer 3 (Some user_7)
      (\<lambda>k. ''t'') (\<lambda>k. 1000) (\<lambda>rows. Some ''new row violates row-level security policy''))"
    by code_simp
  have n2: "\<not> iu_stored (issue_handleSubmit (Some user_7) (Some 1) [project_AB] (Some 2) ''Fix it''
        (\<lambda>row. Some ''duplicate key value violates unique constraint''))"
    by code_simp
  note t = backend_errors_at_call_sites
    [where emails = "[''ann@example.org'']" and role = InviteViewer and orgId = 3
       and user = "Some user_7" and uuids = "\<lambda>k. ''t''" and clock = "\<lambda>k. 1000"
       and insert_rows = "\<lambda>rows. Some ''new row violates row-level security policy''"
       and u = user_7 and msg = "''new row violates row-level security policy''"
       and pid = 1 and projects_state = "[project_AB]" and count = "Some 2"
       and title = "''Fix it''"
       and insert_row = "\<lambda>row. Some ''duplicate key value violates unique constraint''"
       and k = "''AB-3''" and ?msg2.0 = "''duplicate key value violates unique constraint''"
       and err = "[]" and update_profile = None]
  from t v have a: "is_events (invite_handleSubmit [''ann@example.org''] InviteViewer 3 (Some user_7)
      (\<lambda>k. ''t'') (\<lambda>k. 1000) (\<lambda>rows. Some ''new row violates row-level security policy''))
     = [Toast ''Error'' (message_or ''new row violates row-level security policy''
          ''Failed to send invitations'') True]"
    by blast
  from t g have b: "iu_events (issue_handleSubmit (Some user_7) (Some 1) [project_AB] (Some 2) ''Fix it''
        (\<lambda>row. Some ''duplicate key value violates unique constraint''))
     = [Toast ''Error'' (message_or ''duplicate key value violates unique constraint''
          ''Failed to create issue'') True]"
    by blast
  from t have c: "org_handleSubmit (Some user_7) (Inl []) None
     = [Toast ''Error'' (message_or [] ''Failed to create organization'') True]"
    by blast
  from n1 n2 a b c show ?thesis by (simp add: message_or_def)
qed

text \<open>
  The claim as written fails at \<open>Board.loadIssues\<close>: the error of the query is caught, and
  the user is shown no toast.
\<close>

theorem loadIssues_error_counterexample:
  "snd (loadIssues (Some user_7) (Inl ''permission denied for table issues'')
          \<lparr>bs_issues = [], bs_loading = True\<rparr>)
     = [ConsoleError ''Error loading issues:'' ''permission denied for table issues'']
   \<and> \<not> list_ex is_toast (snd (loadIssues (Some user_7) (Inl ''permission denied for table issues'')
          \<lparr>bs_issues = [], bs_loading = True\<rparr>))"
  by (simp add: loadIssues_def)

section \<open>Properties of the constraints\<close>

lemma update_rows_result:
  "update_rows pk uq cond f seen todo = Inr res \<Longrightarrow>
     res = seen @ map (\<lambda>r. if cond r then f r else r) todo"
proof (induction todo arbitrary: seen)
  case Nil
  then show ?case by simp
next
  case (Cons r todo)
  show ?case
  proof (cases "cond r")
    case True
    with Cons.prems have "update_rows pk uq cond f (seen @ [f r]) todo = Inr res"
      by (auto split: if_splits)
    from Cons.IH [OF this] True show ?thesis by simp
  next
    case False
    with Cons.prems have "update_rows pk uq cond f (seen @ [r]) todo = Inr res"
      by simp
    from Cons.IH [OF this] False show ?thesis by simp
  qed
qed

lemma update_rows_distinct:
  "update_rows pk uq cond f seen todo = Inr res \<Longrightarrow> distinct (map uq (seen @ todo)) \<Longrightarrow>
     distinct (map uq res)"
proof (induction todo arbitrary: seen)
  case Nil
  then show ?case by simp
next
  case (Cons r todo)
  show ?case
  proof (cases "cond r")
    case True
    with Cons.prems(1) have free: "uq (f r) \<notin> set (map uq (seen @ todo))"
      and rec: "update_rows pk uq cond f (seen @ [f r]) todo = Inr res"
      by (auto split: if_splits)
    from Cons.prems(2) free have "distinct (map uq ((seen @ [f r]) @ todo))"
      by auto
    with Cons.IH [OF rec] show ?thesis .
  next
    case False
    with Cons.prems(1) have rec: "update_rows pk uq cond f (seen @ [r]) todo = Inr res"
      by simp
    from Cons.prems(2) have "distinct (map uq ((seen @ [r]) @ todo))" by simp
    with Cons.IH [OF rec] show ?thesis .
  qed
qed

lemma exec_write_requested:
  "exec_write pk uq rows w = Inr res \<Longrightarrow> res = requested uq rows w"
  by (cases w)
     (auto simp: insert_checked_def insert_do_nothing_def dest: update_rows_result
       split: if_splits)

lemma exec_write_distinct:
  assumes "exec_write pk uq rows w = Inr res" "distinct (map uq rows)"
  shows "distinct (map uq res)"
proof (cases w)
  case (Insert r)
  with assms show ?thesis by (auto simp: insert_checked_def split: if_splits)
next
  case (InsertOnConflictDoNothing r)
  with assms show ?thesis by (auto simp: insert_do_nothing_def split: if_splits)
next
  case (Update cond f)
  with assms update_rows_distinct [of pk uq cond f "[]" rows res] show ?thesis by simp
next
  case (Delete cond)
  with assms show ?thesis by (auto simp: distinct_map_filter)
qed

lemma exec_write_refuses:
  assumes "distinct (map uq rows)" "\<not> distinct (map uq (requested uq rows w))"
  shows "\<exists>e. exec_write pk uq rows w = Inl e"
proof (cases "exec_write pk uq rows w")
  case (Inl e)
  then show ?thesis by blast
next
  case (Inr res)
  from exec_write_distinct [OF Inr assms(1)] exec_write_requested [OF Inr] assms(2)
  show ?thesis by simp
qed


lemma unique_columns_simps:
  "no_duplicate_issue_key db = distinct (map issue_unique_columns (issues db))"
  "no_duplicate_project_key db = distinct (map project_unique_columns (projects db))"
  "user_roles_unique db = distinct (map user_role_unique_columns (user_roles db))"
proof -
  have "issue_unique_columns = (\<lambda>i. (i_project_id i, i_issue_key i))"
    and "project_unique_columns = (\<lambda>p. (p_org_id p, p_key p))"
    and "user_role_unique_columns = (\<lambda>r. (ur_user_id r, ur_org_id r))"
    by (simp_all add: fun_eq_iff issue_unique_columns_def project_unique_columns_def
        user_role_unique_columns_def)
  then show "no_duplicate_issue_key db = distinct (map issue_unique_columns (issues db))"
    and "no_duplicate_project_key db = distinct (map project_unique_columns (projects db))"
    and "user_roles_unique db = distinct (map user_role_unique_columns (user_roles db))"
    by (simp_all add: no_duplicate_issue_key_def no_duplicate_project_key_def
        user_roles_unique_def)
qed

text \<open>The same property said of two rows: no two issues of one project carry the same key.\<close>

lemma no_duplicate_issue_key_rows:
  "no_duplicate_issue_key db \<longleftrightarrow>
     (\<forall>m < length (issues db). \<forall>n < length (issues db). m \<noteq> n \<longrightarrow>
        \<not> (i_project_id (issues db ! m) = i_project_id (issues db ! n)
           \<and> i_issue_key (issues db ! m) = i_issue_key (issues db ! n)))"
  by (auto simp: no_duplicate_issue_key_def distinct_conv_nth)

lemma exec_uniqueness:
  assumes "uniqueness db"
  shows "uniqueness (snd (exec db s))"
proof (cases s)
  case (OnUserRoles w)
  show ?thesis
  proof (cases "exec_write ur_id user_role_unique_columns (user_roles db) w")
    case (Inl e)
    with OnUserRoles assms show ?thesis by simp
  next
    case (Inr rows)
    from exec_write_distinct [OF Inr] assms
    have "distinct (map user_role_unique_columns rows)"
      by (simp add: uniqueness_def unique_columns_simps)
    with OnUserRoles Inr assms show ?thesis
      by (simp add: uniqueness_def unique_columns_simps)
  qed
next
  case (OnProjects w)
  show ?thesis
  proof (cases "exec_write p_id project_unique_columns (projects db) w")
    case (Inl e)
    with OnProjects assms show ?thesis by simp
  next
    case (Inr rows)
    from exec_write_distinct [OF Inr] assms
    have "distinct (map project_unique_columns rows)"
      by (simp add: uniqueness_def unique_columns_simps)
    with OnProjects Inr assms show ?thesis
      by (simp add: uniqueness_def unique_columns_simps)
  qed
next
  case (OnIssues w)
  show ?thesis
  proof (cases "exec_write i_id issue_unique_columns (issues db) w")
    case (Inl e)
    with OnIssues assms show ?thesis by simp
  next
    case (Inr rows)
    from exec_write_distinct [OF Inr] assms
    have "distinct (map issue_unique_columns rows)"
      by (simp add: uniqueness_def unique_columns_simps)
    with OnIssues Inr assms show ?thesis
      by (simp add: uniqueness_def unique_columns_simps)
  qed
qed

lemma reachable_uniqueness: "reachable db \<Longrightarrow> uniqueness db"
proof (induction rule: reachable.induct)
  case created
  show ?case
    by (simp add: uniqueness_def unique_columns_simps empty_db_def)
next
  case (statement db s)
  then show ?case by (simp add: exec_uniqueness)
next
  case (elsewhere db iv dp pr sp bd)
  then show ?case
    by (simp add: uniqueness_def unique_columns_simps)
qed

lemma exec_refuses:
  assumes "uniqueness db" "\<not> uniqueness (requested_state db s)"
  shows "\<exists>e. exec db s = (Some e, db)"
proof (cases s)
  case (OnUserRoles w)
  with assms have "\<not> distinct (map user_role_unique_columns
      (requested user_role_unique_columns (user_roles db) w))"
    by (simp add: uniqueness_def unique_columns_simps)
  with assms(1) obtain e where "exec_write ur_id user_role_unique_columns (user_roles db) w = Inl e"
    using exec_write_refuses [of user_role_unique_columns "user_roles db" w ur_id]
    by (auto simp: uniqueness_def unique_columns_simps)
  with OnUserRoles show ?thesis by simp
next
  case (OnProjects w)
  with assms have "\<not> distinct (map project_unique_columns
      (requested project_unique_columns (projects db) w))"
    by (simp add: uniqueness_def unique_columns_simps)
  with assms(1) obtain e where "exec_write p_id project_unique_columns (projects db) w = Inl e"
    using exec_write_refuses [of project_unique_columns "projects db" w p_id]
    by (auto simp: uniqueness_def unique_columns_simps)
  with OnProjects show ?thesis by simp
next
  case (OnIssues w)
  with assms have "\<not> distinct (map issue_unique_columns
      (requested issue_unique_columns (issues db) w))"
    by (simp add: uniqueness_def unique_columns_simps)
  with assms(1) obtain e where "exec_write i_id issue_unique_columns (issues db) w = Inl e"
    using exec_write_refuses [of issue_unique_columns "issues db" w i_id]
    by (auto simp: uniqueness_def unique_columns_simps)
  with OnIssues show ?thesis by simp
qed

text \<open>
  Claim C3. In every reachable state no two issues of a project have the same
  \<open>issue_key\<close>, no two projects of an organization have the same \<open>key\<close>, and no two
  \<open>user_roles\<close> rows have the same pair of user and organization; and a statement whose
  requested table would break one of the three fails and leaves the state unchanged.
\<close>

theorem uniqueness_in_reachable_states:
  assumes "reachable db"
  shows "no_duplicate_issue_key db \<and> no_duplicate_project_key db \<and> user_roles_unique db
    \<and> (\<forall>s. \<not> uniqueness (requested_state db s) \<longrightarrow> (\<exists>e. exec db s = (Some e, db)))"
proof -
  from assms have u: "uniqueness db" by (rule reachable_uniqueness)
  then have "\<forall>s. \<not> uniqueness (requested_state db s) \<longrightarrow> (\<exists>e. exec db s = (Some e, db))"
    using exec_refuses by blast
  with u show ?thesis by (simp add: uniqueness_def)
qed

theorem uniqueness_in_reachable_states_witness:
  "reachable (snd (exec empty_db (OnProjects (Insert project_AB))))
   \<and> \<not> uniqueness (requested_state (snd (exec empty_db (OnProjects (Insert project_AB))))
          (OnProjects (Insert \<lparr>p_id = 2, p_org_id = 9, p_name = ''Again'', p_key = ''AB''\<rparr>)))
   \<and> exec (snd (exec empty_db (OnProjects (Insert project_AB))))
          (OnProjects (Insert \<lparr>p_id = 2, p_org_id = 9, p_name = ''Again'', p_key = ''AB''\<rparr>))
       = (Some UniqueViolation, snd (exec empty_db (OnProjects (Insert project_AB))))"
proof -
  let ?db = "snd (exec empty_db (OnProjects (Insert project_AB)))"
  let ?s = "OnProjects (Insert \<lparr>p_id = 2, p_org_id = 9, p_name = ''Again'', p_key = ''AB''\<rparr>)"
  have r: "reachable ?db"
    by (rule reachable.statement) (rule reachable.created)
  have v: "\<not> uniqueness (requested_state ?db ?s)"
    by code_simp
  from uniqueness_in_reachable_states [OF r] v
  obtain e where e: "exec ?db ?s = (Some e, ?db)" by blast
  have "fst (exec ?db ?s) = Some UniqueViolation" by code_simp
  with e have "e = UniqueViolation" by simp
  with e r v show ?thesis by simp
qed

end
